theory Spec2Isabelle
  imports Main "HOL-Library.AList"
begin

section \<open>Data model of \<^verbatim>\<open>DocumentVersion\<close>\<close>

text \<open>
  The source is \<^verbatim>\<open>mayan/apps/documents/models/document_version_models.py\<close>.
  Methods of \<^verbatim>\<open>DocumentVersion\<close> mutate the instance \<^verbatim>\<open>self\<close>, the database,
  the content store and the log, and they raise exceptions. Here a method takes
  \<^verbatim>\<open>self\<close> and the world and returns either the exception or its result, always
  together with the world it leaves behind.

  Exceptions are the subclasses of Python's \<^verbatim>\<open>Exception\<close>: the two the source
  names, the ones the modelled library calls raise, and \<open>Failure\<close> for any other
  exception of a collaborator.
\<close>

datatype error =
    PageCountError
  | InvalidOfficeFormat
  | FileNotFound string
  | KeyError int
  | ValueError
  | AssertionError
  | Failure string

type_synonym bytes = string
type_synonym user = string

record document =
  doc_pk :: nat
  doc_uuid :: string
  label :: string
  is_stub :: bool

text \<open>
  The model fields of the class. \<open>pk\<close> is \<open>None\<close> until the first save; primary
  keys are positive, so \<^verbatim>\<open>not self.pk\<close> is \<open>pk v = None\<close>. \<open>file_name\<close> is
  \<^verbatim>\<open>self.file.name\<close>, the key of the binary in the content store, and \<open>upload\<close> is the
  content of \<^verbatim>\<open>self.file\<close> as long as it is not committed to the storage. \<open>document\<close>
  is the related instance that \<^verbatim>\<open>self.document\<close> holds.
\<close>

record version =
  pk :: "nat option"
  document :: document
  timestamp :: nat
  comment :: string
  file_name :: string
  upload :: "bytes option"
  mimetype :: "string option"
  encoding :: "string option"
  checksum :: "string option"

record page =
  page_pk :: nat
  document_version :: nat
  page_number :: int

record transformation =
  content_object :: nat
  transformation_name :: string
  arguments :: string

datatype level = DEBUG | INFO | ERROR

datatype log_arg = ArgDocument nat | ArgVersion "nat option" | ArgError error

type_synonym log_record = "level \<times> string \<times> log_arg list"

datatype event =
    EventDocumentVersionRevert "user option" nat
  | EventDocumentNewVersion "user option" "nat option" nat
  | PostVersionUpload "nat option"
  | PostDocumentCreated nat

datatype effect = PageDeleted nat | StorageDeleted string | VersionDeleted nat

text \<open>
  The world: the content store (\<^verbatim>\<open>storage_documentversion\<close>), the four database tables
  the class reads and writes, the cache partitions with their files, the records given to
  \<^verbatim>\<open>logger\<close>, the events and signals sent, and a journal of the deletions in the order
  they happened. The two sequences stand for the key sequences of the tables of versions and
  of pages: each holds the highest key given to a row that was inserted or deleted in
  this world, so that a key is never given twice, also after its row is gone.
\<close>

record world =
  storage :: "string \<rightharpoonup> bytes"
  versions :: "version list"
  pages :: "page list"
  documents :: "document list"
  transformations :: "transformation list"
  cache :: "string \<rightharpoonup> (string \<rightharpoonup> bytes)"
  logs :: "log_record list"
  events :: "event list"
  journal :: "effect list"
  clock :: nat
  version_pk_seq :: nat
  page_pk_seq :: nat

type_synonym 'a result = "(error + 'a) \<times> world"

text \<open>
  What the module imports and the class holds at class level: the two hook registries
  (dictionaries from an order key to a callable, kept in insertion order), the hash function,
  the function that names an upload (the \<^verbatim>\<open>upload_to\<close> of the file field) and the
  storage's choice of a free name for it, given the names that are taken, the MIME
  sniffer, the converter, the orientation detector of a page, the setting, and for every
  library call that can raise, the exception it raises, if any.
\<close>

record env =
  pre_open_hooks :: "(int \<times> (bytes \<Rightarrow> version \<Rightarrow> error + bytes)) list"
  post_save_hooks :: "(int \<times> (version \<Rightarrow> world \<Rightarrow> unit result)) list"
  document_hash_function :: "bytes \<Rightarrow> error + string"
  document_uuid_function :: "version \<Rightarrow> string"
  get_available_name :: "string \<Rightarrow> (string \<Rightarrow> bool) \<Rightarrow> string"
  get_mimetype :: "bytes \<Rightarrow> error + string \<times> string"
  get_page_count :: "bytes \<Rightarrow> string option \<Rightarrow> error + int"
  to_pdf :: "bytes \<Rightarrow> error + bytes list"
  detect_orientation :: "page \<Rightarrow> error + int option"
  setting_fix_orientation :: bool
  model_save_error :: "version \<Rightarrow> error option"
  model_delete_error :: "version \<Rightarrow> error option"
  document_save_error :: "document \<Rightarrow> error option"
  page_create_error :: "version \<Rightarrow> int \<Rightarrow> error option"
  page_delete_error :: "page \<Rightarrow> error option"
  storage_delete_error :: "string \<Rightarrow> error option"
  storage_save_error :: "string \<Rightarrow> error option"

section \<open>Sequencing, logging, transactions\<close>

definition and_then :: "(world \<Rightarrow> 'a result) \<Rightarrow> ('a \<Rightarrow> world \<Rightarrow> 'b result) \<Rightarrow> world \<Rightarrow> 'b result" where
  "and_then m f s = (case m s of (Inl e, s') \<Rightarrow> (Inl e, s') | (Inr x, s') \<Rightarrow> f x s')"

definition return :: "'a \<Rightarrow> world \<Rightarrow> 'a result" where
  "return x s = (Inr x, s)"

definition logger :: "level \<Rightarrow> string \<Rightarrow> log_arg list \<Rightarrow> world \<Rightarrow> world" where
  "logger lvl msg args s = s\<lparr>logs := logs s @ [(lvl, msg, args)]\<rparr>"

definition commit :: "event \<Rightarrow> world \<Rightarrow> world" where
  "commit ev s = s\<lparr>events := events s @ [ev]\<rparr>"

text \<open>
  \<^verbatim>\<open>with transaction.atomic():\<close> an exception that leaves the block puts the database
  tables back as they were at its start and goes on to the caller; what is not in the
  tables (content store, cache files, log, events, and the key sequences, which a rollback
  does not rewind) stays as the block left it.
\<close>

definition rollback :: "world \<Rightarrow> world \<Rightarrow> world" where
  "rollback s0 s = s\<lparr>versions := versions s0, pages := pages s0,
     documents := documents s0, transformations := transformations s0\<rparr>"

definition atomic :: "(world \<Rightarrow> 'a result) \<Rightarrow> world \<Rightarrow> 'a result" where
  "atomic body s = (case body s of (Inl e, s') \<Rightarrow> (Inl e, rollback s s') | (Inr x, s') \<Rightarrow> (Inr x, s'))"

section \<open>Library calls the class makes\<close>

fun str_nat :: "nat \<Rightarrow> string" where
  "str_nat n = (if n < 10 then [''0123456789'' ! n]
     else str_nat (n div 10) @ [''0123456789'' ! (n mod 10)])"

declare str_nat.simps [simp del]

definition str_int :: "int \<Rightarrow> string" where
  "str_int i = (if i < 0 then CHR ''-'' # str_nat (nat (- i)) else str_nat (nat i))"

definition str_pk :: "nat option \<Rightarrow> string" where
  "str_pk k = (case k of None \<Rightarrow> ''None'' | Some n \<Rightarrow> str_nat n)"

text \<open>
  The key of a new row is above the keys in the table and above the sequence, which
  \<open>remember\<close> raises to the keys of the rows that are deleted.
\<close>

definition remember :: "nat list \<Rightarrow> nat \<Rightarrow> nat" where
  "remember ks seq = fold max ks seq"

definition fresh_pk :: "nat list \<Rightarrow> nat \<Rightarrow> nat" where
  "fresh_pk ks seq = Suc (remember ks seq)"

definition storage_open :: "world \<Rightarrow> string \<Rightarrow> error + bytes" where
  "storage_open s name = (case storage s name of None \<Rightarrow> Inl (FileNotFound name) | Some b \<Rightarrow> Inr b)"

definition storage_delete :: "env \<Rightarrow> string \<Rightarrow> world \<Rightarrow> unit result" where
  "storage_delete env name s =
     (case storage_delete_error env name of
        Some e \<Rightarrow> (Inl e, s)
      | None \<Rightarrow> (Inr (), s\<lparr>storage := (storage s)(name := None),
                            journal := journal s @ [StorageDeleted name]\<rparr>))"

text \<open>
  What \<^verbatim>\<open>super().save()\<close> does for the file field before it writes the row: content that
  is not committed yet is written to the storage under the name that the storage chooses
  for the name \<^verbatim>\<open>document_uuid_function\<close> gives, and that name becomes
  \<^verbatim>\<open>self.file.name\<close>.
\<close>

definition file_pre_save :: "env \<Rightarrow> version \<Rightarrow> world \<Rightarrow> version result" where
  "file_pre_save env v s =
     (case upload v of
        None \<Rightarrow> (Inr v, s)
      | Some content \<Rightarrow>
          (let name = get_available_name env (document_uuid_function env v)
                        (\<lambda>n. storage s n \<noteq> None)
           in case storage_save_error env name of
                Some e \<Rightarrow> (Inl e, s)
              | None \<Rightarrow>
                  (Inr (v\<lparr>file_name := name, upload := None\<rparr>),
                   s\<lparr>storage := (storage s)(name \<mapsto> content)\<rparr>)))"

text \<open>
  \<^verbatim>\<open>super(DocumentVersion, self).save()\<close>: the file is committed, then the row is written.
  An instance without a primary key is inserted with the next key. An instance with a
  primary key replaces its row; when the table has no row of that key it is inserted.
  Every insert sets the timestamp, which is \<^verbatim>\<open>auto_now_add\<close>, to the time of the insert.
\<close>

definition super_save :: "env \<Rightarrow> version \<Rightarrow> world \<Rightarrow> version result" where
  "super_save env v s =
     (case file_pre_save env v s of
        (Inl e, s1) \<Rightarrow> (Inl e, s1)
      | (Inr v1, s1) \<Rightarrow>
          (case model_save_error env v1 of
             Some e \<Rightarrow> (Inl e, s1)
           | None \<Rightarrow>
               (case pk v1 of
                  None \<Rightarrow>
                    (let k = fresh_pk (List.map_filter pk (versions s1)) (version_pk_seq s1);
                         v' = v1\<lparr>pk := Some k, timestamp := clock s1\<rparr>
                     in (Inr v', s1\<lparr>versions := versions s1 @ [v'], version_pk_seq := k\<rparr>))
                | Some k \<Rightarrow>
                    (if list_ex (\<lambda>r. pk r = Some k) (versions s1)
                     then (Inr v1, s1\<lparr>versions :=
                             map (\<lambda>r. if pk r = Some k then v1 else r) (versions s1)\<rparr>)
                     else (let v' = v1\<lparr>timestamp := clock s1\<rparr>
                           in (Inr v', s1\<lparr>versions := versions s1 @ [v']\<rparr>))))))"

text \<open>
  \<^verbatim>\<open>super(DocumentVersion, self).delete()\<close>: removes the row and, the foreign key of a page
  cascading, the pages that still point to it.
\<close>

definition super_delete :: "env \<Rightarrow> version \<Rightarrow> world \<Rightarrow> unit result" where
  "super_delete env v s =
     (case model_delete_error env v of
        Some e \<Rightarrow> (Inl e, s)
      | None \<Rightarrow>
          (case pk v of
             None \<Rightarrow> (Inl AssertionError, s)
           | Some k \<Rightarrow>
               (Inr (), s\<lparr>versions := filter (\<lambda>r. pk r \<noteq> Some k) (versions s),
                          pages := filter (\<lambda>p. document_version p \<noteq> k) (pages s),
                          journal := journal s @ [VersionDeleted k],
                          version_pk_seq := max k (version_pk_seq s),
                          page_pk_seq :=
                            remember (map page_pk (filter (\<lambda>p. document_version p = k) (pages s)))
                              (page_pk_seq s)\<rparr>)))"

definition document_save :: "env \<Rightarrow> document \<Rightarrow> world \<Rightarrow> unit result" where
  "document_save env d s =
     (case document_save_error env d of
        Some e \<Rightarrow> (Inl e, s)
      | None \<Rightarrow>
          (Inr (), s\<lparr>documents :=
             (if list_ex (\<lambda>r. doc_pk r = doc_pk d) (documents s)
              then map (\<lambda>r. if doc_pk r = doc_pk d then d else r) (documents s)
              else documents s @ [d])\<rparr>))"

text \<open>\<^verbatim>\<open>self.pages.all()\<close>, in the order of the page numbers.\<close>

definition pages_all :: "version \<Rightarrow> world \<Rightarrow> page list" where
  "pages_all v s =
     (case pk v of
        None \<Rightarrow> []
      | Some k \<Rightarrow> sort_key page_number (filter (\<lambda>p. document_version p = k) (pages s)))"

definition pages_all_delete :: "version \<Rightarrow> world \<Rightarrow> world" where
  "pages_all_delete v s =
     s\<lparr>pages := filter (\<lambda>p. Some (document_version p) \<noteq> pk v) (pages s),
       page_pk_seq :=
         remember (map page_pk (filter (\<lambda>p. Some (document_version p) = pk v) (pages s)))
           (page_pk_seq s)\<rparr>"

definition pages_create :: "env \<Rightarrow> version \<Rightarrow> int \<Rightarrow> world \<Rightarrow> unit result" where
  "pages_create env v n s =
     (case page_create_error env v n of
        Some e \<Rightarrow> (Inl e, s)
      | None \<Rightarrow>
          (case pk v of
             None \<Rightarrow> (Inl ValueError, s)
           | Some k \<Rightarrow>
               (let key = fresh_pk (map page_pk (pages s)) (page_pk_seq s)
                in (Inr (), s\<lparr>pages := pages s @
                      [\<lparr>page_pk = key, document_version = k, page_number = n\<rparr>],
                      page_pk_seq := key\<rparr>))))"

definition page_delete :: "env \<Rightarrow> page \<Rightarrow> world \<Rightarrow> unit result" where
  "page_delete env p s =
     (case page_delete_error env p of
        Some e \<Rightarrow> (Inl e, s)
      | None \<Rightarrow>
          (Inr (), s\<lparr>pages := filter (\<lambda>q. page_pk q \<noteq> page_pk p) (pages s),
                     journal := journal s @ [PageDeleted (page_pk p)],
                     page_pk_seq := max (page_pk p) (page_pk_seq s)\<rparr>))"

definition add_for_model :: "page \<Rightarrow> string \<Rightarrow> string \<Rightarrow> world \<Rightarrow> world" where
  "add_for_model p name args s =
     s\<lparr>transformations := transformations s @
        [\<lparr>content_object = page_pk p, transformation_name = name, arguments = args\<rparr>]\<rparr>"

section \<open>The methods of \<^verbatim>\<open>DocumentVersion\<close>\<close>

subsection \<open>Hook registries, \<^verbatim>\<open>exists\<close>, \<^verbatim>\<open>open\<close>\<close>

definition register_pre_open_hook ::
  "int \<Rightarrow> (bytes \<Rightarrow> version \<Rightarrow> error + bytes) \<Rightarrow> env \<Rightarrow> env" where
  "register_pre_open_hook order func env =
     env\<lparr>pre_open_hooks := AList.update order func (pre_open_hooks env)\<rparr>"

definition register_post_save_hook ::
  "int \<Rightarrow> (version \<Rightarrow> world \<Rightarrow> unit result) \<Rightarrow> env \<Rightarrow> env" where
  "register_post_save_hook order func env =
     env\<lparr>post_save_hooks := AList.update order func (post_save_hooks env)\<rparr>"

definition exists :: "version \<Rightarrow> world \<Rightarrow> bool" where
  "exists v s = (storage s (file_name v) \<noteq> None)"

text \<open>
  The loop of \<^verbatim>\<open>open\<close> over \<^verbatim>\<open>sorted(DocumentVersion._pre_open_hooks)\<close>: the keys that
  are left and the current \<^verbatim>\<open>result\<close>.
\<close>

fun pre_open_loop :: "env \<Rightarrow> int list \<Rightarrow> version \<Rightarrow> bytes \<Rightarrow> error + bytes" where
  "pre_open_loop env [] v result = Inr result"
| "pre_open_loop env (key # keys) v result =
     (case map_of (pre_open_hooks env) key of
        None \<Rightarrow> Inl (KeyError key)
      | Some hook \<Rightarrow>
          (case hook result v of
             Inl e \<Rightarrow> Inl e
           | Inr result' \<Rightarrow> pre_open_loop env keys v result'))"

definition open_version :: "env \<Rightarrow> bool \<Rightarrow> version \<Rightarrow> world \<Rightarrow> error + bytes" where
  "open_version env raw v s =
     (if raw then storage_open s (file_name v)
      else
        (case storage_open s (file_name v) of
           Inl e \<Rightarrow> Inl e
         | Inr result \<Rightarrow> pre_open_loop env (sort (map fst (pre_open_hooks env))) v result))"

subsection \<open>\<^verbatim>\<open>delete\<close>, \<^verbatim>\<open>revert\<close>, \<^verbatim>\<open>fix_orientation\<close>\<close>

fun delete_pages :: "env \<Rightarrow> page list \<Rightarrow> world \<Rightarrow> unit result" where
  "delete_pages env [] s = (Inr (), s)"
| "delete_pages env (p # ps) s =
     (case page_delete env p s of
        (Inl e, s') \<Rightarrow> (Inl e, s')
      | (Inr _, s') \<Rightarrow> delete_pages env ps s')"

definition delete :: "env \<Rightarrow> version \<Rightarrow> world \<Rightarrow> unit result" where
  "delete env v s =
     and_then (delete_pages env (pages_all v s))
       (\<lambda>_. and_then (storage_delete env (file_name v))
          (\<lambda>_. super_delete env v)) s"

fun delete_versions :: "env \<Rightarrow> version list \<Rightarrow> world \<Rightarrow> unit result" where
  "delete_versions env [] s = (Inr (), s)"
| "delete_versions env (w # ws) s =
     (case delete env w s of
        (Inl e, s') \<Rightarrow> (Inl e, s')
      | (Inr _, s') \<Rightarrow> delete_versions env ws s')"

text \<open>
  \<^verbatim>\<open>self.document.versions.filter(timestamp__gt=self.timestamp)\<close>, in the order of
  \<^verbatim>\<open>Meta.ordering\<close>.
\<close>

definition versions_after :: "version \<Rightarrow> world \<Rightarrow> version list" where
  "versions_after v s =
     sort_key timestamp
       (filter (\<lambda>w. doc_pk (document w) = doc_pk (document v) \<and> timestamp v < timestamp w)
          (versions s))"

definition revert :: "env \<Rightarrow> user option \<Rightarrow> version \<Rightarrow> world \<Rightarrow> unit result" where
  "revert env user v s =
     (let s1 = logger INFO ''Reverting to document document: %s to version: %s''
                 [ArgDocument (doc_pk (document v)), ArgVersion (pk v)] s;
          s2 = commit (EventDocumentVersionRevert user (doc_pk (document v))) s1
      in delete_versions env (versions_after v s2) s2)"

fun fix_orientation_loop :: "env \<Rightarrow> page list \<Rightarrow> world \<Rightarrow> unit result" where
  "fix_orientation_loop env [] s = (Inr (), s)"
| "fix_orientation_loop env (p # ps) s =
     (case detect_orientation env p of
        Inl e \<Rightarrow> (Inl e, s)
      | Inr degrees \<Rightarrow>
          fix_orientation_loop env ps
            (case degrees of
               None \<Rightarrow> s
             | Some d \<Rightarrow>
                 if d \<noteq> 0
                 then add_for_model p ''TransformationRotate''
                        (''{\"degrees\": '' @ str_int (360 - d) @ ''}'') s
                 else s))"

definition fix_orientation :: "env \<Rightarrow> version \<Rightarrow> world \<Rightarrow> unit result" where
  "fix_orientation env v s = fix_orientation_loop env (pages_all v s) s"

subsection \<open>\<^verbatim>\<open>save\<close> and the three \<^verbatim>\<open>update_\<close> methods\<close>

text \<open>
  \<^verbatim>\<open>save\<close> calls the \<^verbatim>\<open>update_\<close> methods and itself, and the \<^verbatim>\<open>update_\<close> methods call
  \<^verbatim>\<open>save\<close>. Each method is first written with the bound method \<^verbatim>\<open>self.save\<close> as the
  parameter \<open>self_save\<close>; the recursion is closed below, where \<open>save_unfold\<close> shows that
  \<open>save\<close> is the method that calls itself.
\<close>

definition update_checksum_with ::
  "(version \<Rightarrow> world \<Rightarrow> version result) \<Rightarrow> env \<Rightarrow> bool \<Rightarrow> version \<Rightarrow> world \<Rightarrow> version result" where
  "update_checksum_with self_save env save_flag v s =
     (if exists v s then
        (case open_version env False v s of
           Inl e \<Rightarrow> (Inl e, s)
         | Inr source \<Rightarrow>
             (case document_hash_function env source of
                Inl e \<Rightarrow> (Inl e, s)
              | Inr h \<Rightarrow>
                  (let v' = v\<lparr>checksum := Some h\<rparr>
                   in if save_flag then self_save v' s else (Inr v', s))))
      else (Inr v, s))"

definition update_mimetype_with ::
  "(version \<Rightarrow> world \<Rightarrow> version result) \<Rightarrow> env \<Rightarrow> bool \<Rightarrow> version \<Rightarrow> world \<Rightarrow> version result" where
  "update_mimetype_with self_save env save_flag v s =
     (if exists v s then
        (let v' =
           (case open_version env False v s of
              Inl e \<Rightarrow> v\<lparr>mimetype := Some '''', encoding := Some ''''\<rparr>
            | Inr file_object \<Rightarrow>
                (case get_mimetype env file_object of
                   Inl e \<Rightarrow> v\<lparr>mimetype := Some '''', encoding := Some ''''\<rparr>
                 | Inr (m, enc) \<Rightarrow> v\<lparr>mimetype := Some m, encoding := Some enc\<rparr>))
         in if save_flag then self_save v' s else (Inr v', s))
      else (Inr v, s))"

text \<open>The loop over \<^verbatim>\<open>range(detected_pages)\<close>.\<close>

fun create_pages :: "env \<Rightarrow> version \<Rightarrow> int list \<Rightarrow> world \<Rightarrow> unit result" where
  "create_pages env v [] s = (Inr (), s)"
| "create_pages env v (n # ns) s =
     (case pages_create env v (n + 1) s of
        (Inl e, s') \<Rightarrow> (Inl e, s')
      | (Inr _, s') \<Rightarrow> create_pages env v ns s')"

text \<open>
  \<^verbatim>\<open>update_page_count\<close> returns \<^verbatim>\<open>detected_pages\<close>, or \<^verbatim>\<open>None\<close> from the branch of
  \<^verbatim>\<open>PageCountError\<close>, which is only \<^verbatim>\<open>pass\<close>.
\<close>

definition update_page_count_with ::
  "(version \<Rightarrow> world \<Rightarrow> version result) \<Rightarrow> env \<Rightarrow> bool \<Rightarrow> version \<Rightarrow> world
     \<Rightarrow> (int option \<times> version) result" where
  "update_page_count_with self_save env save_flag v s =
     (case (case open_version env False v s of
              Inl e \<Rightarrow> Inl e
            | Inr file_object \<Rightarrow> get_page_count env file_object (mimetype v)) of
        Inl e \<Rightarrow> (if e = PageCountError then (Inr (None, v), s) else (Inl e, s))
      | Inr detected_pages \<Rightarrow>
          (case atomic (\<lambda>s. create_pages env v [0..detected_pages - 1] (pages_all_delete v s)) s of
             (Inl e, s') \<Rightarrow> (Inl e, s')
           | (Inr _, s') \<Rightarrow>
               if save_flag then
                 (case self_save v s' of
                    (Inl e, s'') \<Rightarrow> (Inl e, s'')
                  | (Inr v', s'') \<Rightarrow> (Inr (Some detected_pages, v'), s''))
               else (Inr (Some detected_pages, v), s')))"

fun post_save_loop :: "env \<Rightarrow> int list \<Rightarrow> version \<Rightarrow> world \<Rightarrow> unit result" where
  "post_save_loop env [] v s = (Inr (), s)"
| "post_save_loop env (key # keys) v s =
     (case map_of (post_save_hooks env) key of
        None \<Rightarrow> (Inl (KeyError key), s)
      | Some hook \<Rightarrow>
          (case hook v s of
             (Inl e, s') \<Rightarrow> (Inl e, s')
           | (Inr _, s') \<Rightarrow> post_save_loop env keys v s'))"

text \<open>The body of \<^verbatim>\<open>with transaction.atomic():\<close> in \<^verbatim>\<open>save\<close>.\<close>

definition save_block ::
  "(version \<Rightarrow> world \<Rightarrow> version result) \<Rightarrow> env \<Rightarrow> bool \<Rightarrow> version \<Rightarrow> world \<Rightarrow> version result" where
  "save_block self_save env new_document_version v =
     and_then (super_save env v) (\<lambda>v1.
     and_then (post_save_loop env (sort (map fst (post_save_hooks env))) v1) (\<lambda>_.
     if new_document_version then
       and_then (update_checksum_with self_save env False v1) (\<lambda>v2.
       and_then (update_mimetype_with self_save env False v2) (\<lambda>v3.
       and_then (self_save v3) (\<lambda>v4.
       and_then (update_page_count_with self_save env False v4) (\<lambda>(_, v5).
       and_then (if setting_fix_orientation env then fix_orientation env v5 else return ()) (\<lambda>_.
       and_then (\<lambda>s. return ()
           (logger INFO ''New document version \"%s\" created for document: %s''
              [ArgVersion (pk v5), ArgDocument (doc_pk (document v5))] s)) (\<lambda>_.
       (let d = (document v5)\<lparr>is_stub := False\<rparr>;
            d' = (if label d = [] then d\<lparr>label := file_name v5\<rparr> else d)
        in and_then (document_save env d') (\<lambda>_. return (v5\<lparr>document := d'\<rparr>)))))))))
     else return v1))"

definition save_with ::
  "(version \<Rightarrow> world \<Rightarrow> version result) \<Rightarrow> env \<Rightarrow> user option \<Rightarrow> version \<Rightarrow> world \<Rightarrow> version result" where
  "save_with self_save env user v s =
     (let new_document_version = (pk v = None);
          s0 = (if new_document_version
                then logger INFO ''Creating new version for document: %s''
                       [ArgDocument (doc_pk (document v))] s
                else s)
      in case atomic (save_block self_save env new_document_version v) s0 of
           (Inl exception, s') \<Rightarrow>
             (Inl exception,
              logger ERROR ''Error creating new document version for document \"%s\"; %s''
                [ArgDocument (doc_pk (document v)), ArgError exception] s')
         | (Inr v', s') \<Rightarrow>
             (Inr v',
              if new_document_version then
                (let s1 = commit (EventDocumentNewVersion user (pk v') (doc_pk (document v'))) s';
                     s2 = commit (PostVersionUpload (pk v')) s1
                 in if map pk (filter (\<lambda>w. doc_pk (document w) = doc_pk (document v'))
                                 (versions s2)) = [pk v']
                    then commit (PostDocumentCreated (doc_pk (document v'))) s2
                    else s2)
              else s'))"

text \<open>
  \<^verbatim>\<open>save\<close> of an instance that has its primary key runs none of the calls of
  \<^verbatim>\<open>self.save()\<close>; \<^verbatim>\<open>save\<close> of a new instance calls \<^verbatim>\<open>self.save()\<close> once, after
  the first \<^verbatim>\<open>super().save()\<close> has given it its primary key.
\<close>

definition save_saved :: "env \<Rightarrow> version \<Rightarrow> world \<Rightarrow> version result" where
  "save_saved env = save_with (\<lambda>v s. (Inl (Failure ''RecursionError''), s)) env None"

definition save :: "env \<Rightarrow> user option \<Rightarrow> version \<Rightarrow> world \<Rightarrow> version result" where
  "save env user = save_with (save_saved env) env user"

definition update_checksum :: "env \<Rightarrow> bool \<Rightarrow> version \<Rightarrow> world \<Rightarrow> version result" where
  "update_checksum env = update_checksum_with (save env None) env"

definition update_mimetype :: "env \<Rightarrow> bool \<Rightarrow> version \<Rightarrow> world \<Rightarrow> version result" where
  "update_mimetype env = update_mimetype_with (save env None) env"

definition update_page_count ::
  "env \<Rightarrow> bool \<Rightarrow> version \<Rightarrow> world \<Rightarrow> (int option \<times> version) result" where
  "update_page_count env = update_page_count_with (save env None) env"

subsection \<open>\<^verbatim>\<open>get_intermidiate_file\<close>\<close>

definition uuid :: "version \<Rightarrow> string" where
  "uuid v = doc_uuid (document v) @ ''-'' @ str_pk (pk v)"

text \<open>\<^verbatim>\<open>cache_partition\<close>: \<^verbatim>\<open>get_or_create\<close> of the partition named after the version.\<close>

definition cache_partition :: "version \<Rightarrow> world \<Rightarrow> string \<times> world" where
  "cache_partition v s =
     (let name = ''version-'' @ uuid v
      in (name, case cache s name of
                  None \<Rightarrow> s\<lparr>cache := (cache s)(name \<mapsto> Map.empty)\<rparr>
                | Some files \<Rightarrow> s))"

definition get_file :: "world \<Rightarrow> string \<Rightarrow> string \<Rightarrow> bytes option" where
  "get_file s part filename =
     (case cache s part of None \<Rightarrow> None | Some files \<Rightarrow> files filename)"

definition create_file :: "string \<Rightarrow> string \<Rightarrow> bytes list \<Rightarrow> world \<Rightarrow> world" where
  "create_file part filename chunks s =
     s\<lparr>cache := (cache s)(part \<mapsto>
        (case cache s part of
           None \<Rightarrow> [filename \<mapsto> concat chunks]
         | Some files \<Rightarrow> files(filename \<mapsto> concat chunks)))\<rparr>"

definition get_intermidiate_file :: "env \<Rightarrow> version \<Rightarrow> world \<Rightarrow> bytes result" where
  "get_intermidiate_file env v s =
     (let (part, s1) = cache_partition v s
      in case get_file s1 part ''intermediate_file'' of
           Some cache_file \<Rightarrow> (Inr cache_file, logger DEBUG ''Intermidiate file found.'' [] s1)
         | None \<Rightarrow>
             (let s2 = logger DEBUG ''Intermidiate file not found.'' [] s1
              in case (case open_version env False v s2 of
                         Inl e \<Rightarrow> (Inl e, s2)
                       | Inr file_object \<Rightarrow>
                           (case to_pdf env file_object of
                              Inl e \<Rightarrow> (Inl e, s2)
                            | Inr pdf_file_object \<Rightarrow>
                                (let s3 = create_file part ''intermediate_file'' pdf_file_object s2
                                 in case get_file s3 part ''intermediate_file'' of
                                      None \<Rightarrow> (Inl (Failure ''AttributeError''), s3)
                                    | Some cache_file \<Rightarrow> (Inr cache_file, s3)))) of
                   (Inr r, s') \<Rightarrow> (Inr r, s')
                 | (Inl exception, s') \<Rightarrow>
                     if exception = InvalidOfficeFormat
                     then (case open_version env False v s' of
                             Inl e \<Rightarrow> (Inl e, s')
                           | Inr r \<Rightarrow> (Inr r, s'))
                     else (Inl exception,
                           logger ERROR ''Error creating intermediate file; %s.''
                             [ArgError exception] s')))"

section \<open>Registration histories and reference definitions\<close>

text \<open>
  A history of calls of \<^verbatim>\<open>register_pre_open_hook\<close>, oldest first, applied to the class.
\<close>

fun register_all :: "(int \<times> (bytes \<Rightarrow> version \<Rightarrow> error + bytes)) list \<Rightarrow> env \<Rightarrow> env" where
  "register_all [] env = env"
| "register_all ((order, func) # regs) env = register_all regs (register_pre_open_hook order func env)"

text \<open>
  Reference for hook application, independent of the registry: a list of hooks applied from
  left to right, each one given the current stream and the version, its result given to the
  next; the first exception ends it.
\<close>

fun thread_hooks :: "(bytes \<Rightarrow> version \<Rightarrow> error + bytes) list \<Rightarrow> version \<Rightarrow> bytes \<Rightarrow> error + bytes" where
  "thread_hooks [] v stream = Inr stream"
| "thread_hooks (hook # hooks) v stream =
     (case hook stream v of Inl e \<Rightarrow> Inl e | Inr stream' \<Rightarrow> thread_hooks hooks v stream')"

section \<open>Concrete worlds\<close>

definition env_ex :: env where
  "env_ex = \<lparr>pre_open_hooks = [], post_save_hooks = [],
     document_hash_function = (\<lambda>b. Inr (''sha:'' @ b)),
     document_uuid_function = (\<lambda>v. ''uuid-'' @ comment v),
     get_available_name = (\<lambda>name taken. if taken name then name @ ''_1'' else name),
     get_mimetype = (\<lambda>b. Inr (''text/plain'', ''utf-8'')),
     get_page_count = (\<lambda>b m. Inr 3),
     to_pdf = (\<lambda>b. Inr [b]),
     detect_orientation = (\<lambda>p. Inr None),
     setting_fix_orientation = True,
     model_save_error = (\<lambda>_. None), model_delete_error = (\<lambda>_. None),
     document_save_error = (\<lambda>_. None), page_create_error = (\<lambda>_ _. None),
     page_delete_error = (\<lambda>_. None), storage_delete_error = (\<lambda>_. None),
     storage_save_error = (\<lambda>_. None)\<rparr>"

definition doc_ex :: document where
  "doc_ex = \<lparr>doc_pk = 1, doc_uuid = ''u'', label = ''report'', is_stub = False\<rparr>"

definition version_ex :: version where
  "version_ex = \<lparr>pk = Some 1, document = doc_ex, timestamp = 10, comment = '''',
     file_name = ''f1'', upload = None, mimetype = Some ''text/plain'', encoding = Some ''utf-8'',
     checksum = Some ''sha:abc''\<rparr>"

definition world_ex :: world where
  "world_ex = \<lparr>storage = [''f1'' \<mapsto> ''abc''], versions = [version_ex], pages = [],
     documents = [doc_ex], transformations = [], cache = Map.empty, logs = [], events = [],
     journal = [], clock = 50, version_pk_seq = 0, page_pk_seq = 0\<rparr>"

definition hook_tag :: "string \<Rightarrow> bytes \<Rightarrow> version \<Rightarrow> error + bytes" where
  "hook_tag t stream v = Inr (stream @ t)"

text \<open>
  Reference for the orientation fix: the rotation rows due for a list of pages, one for
  each page on which the detector finds a rotation other than 0.
\<close>

definition corrections :: "env \<Rightarrow> page list \<Rightarrow> transformation list" where
  "corrections env ps =
     concat (map (\<lambda>p. case detect_orientation env p of
                           Inr (Some d) \<Rightarrow>
                             if d \<noteq> 0
                             then [\<lparr>content_object = page_pk p,
                                    transformation_name = ''TransformationRotate'',
                                    arguments = ''{\"degrees\": '' @ str_int (360 - d) @ ''}''\<rparr>]
                             else []
                         | _ \<Rightarrow> []) ps)"

definition page_one :: page where
  "page_one = \<lparr>page_pk = 1, document_version = 1, page_number = 1\<rparr>"

definition page_two :: page where
  "page_two = \<lparr>page_pk = 2, document_version = 1, page_number = 2\<rparr>"

definition world_pages :: world where
  "world_pages = world_ex\<lparr>pages := [page_one, page_two],
     cache := [''version-u-1'' \<mapsto> [''intermediate_file'' \<mapsto> ''pdf'']]\<rparr>"

definition version_two :: version where
  "version_two = version_ex\<lparr>pk := Some 2, timestamp := 20, file_name := ''f2''\<rparr>"

definition version_three :: version where
  "version_three = version_ex\<lparr>pk := Some 3, timestamp := 30, file_name := ''f3''\<rparr>"

definition version_other :: version where
  "version_other = version_ex\<lparr>pk := Some 4, timestamp := 40, file_name := ''f4'',
     document := doc_ex\<lparr>doc_pk := 2, doc_uuid := ''w''\<rparr>\<rparr>"

definition world_versions :: world where
  "world_versions = world_ex\<lparr>
     storage := [''f1'' \<mapsto> ''abc'', ''f2'' \<mapsto> ''abd'', ''f3'' \<mapsto> ''abe'', ''f4'' \<mapsto> ''xyz''],
     versions := [version_ex, version_two, version_three, version_other]\<rparr>"

section \<open>The statements of \<^verbatim>\<open>save\<close> for a new version, one after the other\<close>

text \<open>
  The statements inside \<^verbatim>\<open>with transaction.atomic():\<close> when \<^verbatim>\<open>new_document_version\<close>
  holds, in the order of the source, each as a step from the instance to the instance:
  \<^verbatim>\<open>super().save()\<close>, the post-save hooks, \<^verbatim>\<open>update_checksum\<close>, \<^verbatim>\<open>update_mimetype\<close>,
  \<^verbatim>\<open>self.save()\<close>, \<^verbatim>\<open>update_page_count\<close>, \<^verbatim>\<open>fix_orientation\<close>, the log record, and the
  update of the document. \<open>run_steps\<close> runs a list of steps until one raises.
\<close>

definition save_steps :: "env \<Rightarrow> (version \<Rightarrow> world \<Rightarrow> version result) list" where
  "save_steps env =
     [super_save env,
      (\<lambda>v. and_then (post_save_loop env (sort (map fst (post_save_hooks env))) v) (\<lambda>_. return v)),
      update_checksum env False,
      update_mimetype env False,
      save env None,
      (\<lambda>v. and_then (update_page_count env False v) (\<lambda>(_, v'). return v')),
      (\<lambda>v. and_then (if setting_fix_orientation env then fix_orientation env v else return ())
              (\<lambda>_. return v)),
      (\<lambda>v. and_then (\<lambda>s. return ()
              (logger INFO ''New document version \"%s\" created for document: %s''
                 [ArgVersion (pk v), ArgDocument (doc_pk (document v))] s)) (\<lambda>_. return v)),
      (\<lambda>v. let d = (document v)\<lparr>is_stub := False\<rparr>;
                d' = (if label d = [] then d\<lparr>label := file_name v\<rparr> else d)
            in and_then (document_save env d') (\<lambda>_. return (v\<lparr>document := d'\<rparr>)))]"

fun run_steps :: "(version \<Rightarrow> world \<Rightarrow> version result) list \<Rightarrow> version \<Rightarrow> world \<Rightarrow> version result" where
  "run_steps [] v s = (Inr v, s)"
| "run_steps (step # steps) v s =
     (case step v s of
        (Inl e, s') \<Rightarrow> (Inl e, s')
      | (Inr v', s') \<Rightarrow> run_steps steps v' s')"

definition version_new :: version where
  "version_new = \<lparr>pk = None, document = doc_ex\<lparr>label := '''', is_stub := True\<rparr>, timestamp = 0,
     comment = ''first'', file_name = ''f1'', upload = None, mimetype = None, encoding = None, checksum = None\<rparr>"

definition world_new :: world where
  "world_new = world_ex\<lparr>versions := [], documents := [doc_ex\<lparr>label := '''', is_stub := True\<rparr>]\<rparr>"

text \<open>A post-save hook that only writes a log record.\<close>

definition hook_note :: "version \<Rightarrow> world \<Rightarrow> unit result" where
  "hook_note v s = (Inr (), logger INFO ''saved'' [ArgVersion (pk v)] s)"

section \<open>Properties\<close>

lemmas pipeline_defs =
  save_def save_with_def save_saved_def save_block_def and_then_def atomic_def rollback_def
  super_save_def file_pre_save_def fresh_pk_def remember_def List.map_filter_def return_def update_checksum_with_def
  update_mimetype_with_def update_page_count_with_def exists_def open_version_def
  storage_open_def logger_def commit_def pages_all_delete_def pages_create_def pages_all_def
  fix_orientation_def document_save_def add_for_model_def Let_def

subsection \<open>Saving an instance that has its primary key\<close>

lemma save_with_saved:
  assumes "pk v = Some k"
  shows "save_with f env user v s =
    (case atomic (and_then (super_save env v)
            (\<lambda>v1. and_then (post_save_loop env (sort (map fst (post_save_hooks env))) v1) (\<lambda>_. return v1))) s of
       (Inl exception, s') \<Rightarrow>
         (Inl exception,
          logger ERROR ''Error creating new document version for document \"%s\"; %s''
            [ArgDocument (doc_pk (document v)), ArgError exception] s')
     | (Inr v', s') \<Rightarrow> (Inr v', s'))"
  using assms by (simp add: save_with_def save_block_def cong: sum.case_cong prod.case_cong)

lemma save_saved_pk:
  "pk v \<noteq> None \<Longrightarrow> save env user v s = save_saved env v s"
  by (cases "pk v") (simp_all add: save_def save_saved_def save_with_saved)

subsection \<open>\<^verbatim>\<open>open\<close> and the pre-open hooks\<close>

lemma open_version_storage:
  "storage s' = storage s \<Longrightarrow> open_version env raw v s' = open_version env raw v s"
  by (simp add: open_version_def storage_open_def)

lemma pre_open_loop_thread:
  "set keys \<subseteq> dom (map_of (pre_open_hooks env)) \<Longrightarrow>
   pre_open_loop env keys v b = thread_hooks (map (\<lambda>k. the (map_of (pre_open_hooks env) k)) keys) v b"
proof (induction keys arbitrary: b)
  case Nil
  then show ?case by simp
next
  case (Cons k keys)
  then obtain h where "map_of (pre_open_hooks env) k = Some h" by auto
  with Cons show ?case by (simp split: sum.splits)
qed

lemma register_all_hooks:
  "map_of (pre_open_hooks (register_all regs env)) = map_of (pre_open_hooks env) ++ map_of (rev regs)"
proof (induction regs arbitrary: env)
  case Nil
  then show ?case by simp
next
  case (Cons r regs)
  obtain k f where r: "r = (k, f)" by (cases r)
  show ?case
    by (simp add: r Cons register_pre_open_hook_def update_conv' map_add_upd_left fun_eq_iff map_add_def split: option.splits)
qed

lemma register_all_distinct:
  "distinct (map fst (pre_open_hooks env)) \<Longrightarrow> distinct (map fst (pre_open_hooks (register_all regs env)))"
proof (induction regs arbitrary: env)
  case Nil
  then show ?case by simp
next
  case (Cons r regs)
  obtain k f where r: "r = (k, f)" by (cases r)
  show ?case using Cons by (simp add: r register_pre_open_hook_def distinct_update)
qed

lemma register_all_keys:
  "fst ` set (pre_open_hooks (register_all regs env)) = fst ` set (pre_open_hooks env) \<union> fst ` set regs"
proof (induction regs arbitrary: env)
  case Nil
  then show ?case by simp
next
  case (Cons r regs)
  obtain k f where r: "r = (k, f)" by (cases r)
  have "fst ` set (AList.update k f (pre_open_hooks env)) = insert k (fst ` set (pre_open_hooks env))"
    using dom_update [of k f "pre_open_hooks env"] by (simp add: dom_map_of_conv_image_fst update_conv')
  then show ?case by (auto simp: r Cons register_pre_open_hook_def)
qed

lemma sort_distinct_keys:
  "distinct ks \<Longrightarrow> sort ks = sorted_list_of_set (set (ks::int list))"
  by (simp add: sorted_list_of_set_sort_remdups distinct_remdups_id)

text \<open>
  C9. Start from the empty registry of the class and register any hooks, in any order and
  with keys repeated. Then \<^verbatim>\<open>open(raw=True)\<close> is the storage stream with no hook applied,
  and \<^verbatim>\<open>open(raw=False)\<close> threads the storage stream through the registered hooks, one
  per registered key in strictly ascending key order (\<open>sorted_list_of_set\<close> of the keys),
  the hook of a key being the one registered last for it; each hook gets the current
  stream and the version, and its result goes to the next hook.
\<close>

theorem open_applies_hooks_in_key_order:
  assumes "pre_open_hooks env = []"
  shows "open_version (register_all regs env) True v s = storage_open s (file_name v)
       \<and> open_version (register_all regs env) False v s =
         (case storage_open s (file_name v) of
            Inl e \<Rightarrow> Inl e
          | Inr stream \<Rightarrow>
              thread_hooks (map (\<lambda>k. the (map_of (rev regs) k)) (sorted_list_of_set (fst ` set regs))) v stream)"
proof -
  let ?env = "register_all regs env"
  have d: "distinct (map fst (pre_open_hooks ?env))"
    using assms by (simp add: register_all_distinct)
  have k: "set (map fst (pre_open_hooks ?env)) = fst ` set regs"
    using register_all_keys [of regs env] assms by simp
  have m: "map_of (pre_open_hooks ?env) = map_of (rev regs)"
    using register_all_hooks [of regs env] assms by simp
  have s: "sort (map fst (pre_open_hooks ?env)) = sorted_list_of_set (fst ` set regs)"
    using sort_distinct_keys [OF d] k by simp
  have sub: "set (sorted_list_of_set (fst ` set regs)) \<subseteq> dom (map_of (pre_open_hooks ?env))"
    using k by (simp add: dom_map_of_conv_image_fst)
  show ?thesis
    using pre_open_loop_thread [OF sub] by (simp add: open_version_def s m split: sum.splits)
qed

theorem open_applies_hooks_in_key_order_witness:
  "pre_open_hooks env_ex = []
   \<and> open_version (register_all [(20, hook_tag ''|b''), (10, hook_tag ''|a''), (20, hook_tag ''|c'')] env_ex) True version_ex world_ex = Inr ''abc''
   \<and> open_version (register_all [(20, hook_tag ''|b''), (10, hook_tag ''|a''), (20, hook_tag ''|c'')] env_ex) False version_ex world_ex = Inr ''abc|a|c''"
proof -
  let ?regs = "[(20::int, hook_tag ''|b''), (10, hook_tag ''|a''), (20, hook_tag ''|c'')]"
  have h: "pre_open_hooks env_ex = []"
    by (simp add: env_ex_def)
  have "fst ` set ?regs = set (map fst ?regs)"
    by simp
  then have k: "sorted_list_of_set (fst ` set ?regs) = [10, 20]"
    by (simp only: sorted_list_of_set_sort_remdups) simp
  have so: "storage_open world_ex (file_name version_ex) = Inr ''abc''"
    by (simp add: storage_open_def world_ex_def version_ex_def)
  from open_applies_hooks_in_key_order [OF h, of ?regs version_ex world_ex] h show ?thesis
    unfolding k so by (simp add: hook_tag_def)
qed

subsection \<open>\<^verbatim>\<open>update_checksum\<close> and \<^verbatim>\<open>update_mimetype\<close>\<close>

text \<open>
  C10. When the content store has no binary under the version's file name,
  \<^verbatim>\<open>update_checksum\<close> and \<^verbatim>\<open>update_mimetype\<close> return the instance and the world as
  they were, whatever the \<^verbatim>\<open>save\<close> argument is: no field changes, nothing is saved,
  logged or sent.
\<close>

theorem update_without_binary_is_noop:
  assumes "storage s (file_name v) = None"
  shows "update_checksum env save_flag v s = (Inr v, s)
       \<and> update_mimetype env save_flag v s = (Inr v, s)"
  using assms
  by (simp add: update_checksum_def update_mimetype_def update_checksum_with_def
      update_mimetype_with_def exists_def)

theorem update_without_binary_is_noop_witness:
  "storage (world_ex\<lparr>storage := Map.empty\<rparr>) (file_name version_ex) = None
   \<and> update_checksum env_ex True version_ex (world_ex\<lparr>storage := Map.empty\<rparr>)
       = (Inr version_ex, world_ex\<lparr>storage := Map.empty\<rparr>)
   \<and> update_mimetype env_ex True version_ex (world_ex\<lparr>storage := Map.empty\<rparr>)
       = (Inr version_ex, world_ex\<lparr>storage := Map.empty\<rparr>)"
  using update_without_binary_is_noop [of "world_ex\<lparr>storage := Map.empty\<rparr>" version_ex env_ex True]
  by (simp add: world_ex_def)

subsection \<open>What \<^verbatim>\<open>super().save()\<close> leaves in the table\<close>

lemma file_pre_save_fields:
  "file_pre_save env w s = (Inr v1, s1) \<Longrightarrow>
   pk v1 = pk w \<and> mimetype v1 = mimetype w \<and> encoding v1 = encoding w \<and> versions s1 = versions s"
  by (auto simp: file_pre_save_def Let_def split: option.splits)

lemma super_save_keyed:
  assumes "file_pre_save env w s = (Inr w1, t1)" "model_save_error env w1 = None" "pk w1 = Some k"
  shows "super_save env w s =
    (if list_ex (\<lambda>r. pk r = Some k) (versions t1)
     then (Inr w1, t1\<lparr>versions := map (\<lambda>r. if pk r = Some k then w1 else r) (versions t1)\<rparr>)
     else (Inr (w1\<lparr>timestamp := clock t1\<rparr>),
           t1\<lparr>versions := versions t1 @ [w1\<lparr>timestamp := clock t1\<rparr>]\<rparr>))"
  using assms by (simp add: super_save_def Let_def)

lemma super_save_pre:
  assumes "super_save env w s = (Inr v1, s1)"
  shows "\<exists>w1 t1. file_pre_save env w s = (Inr w1, t1) \<and> model_save_error env w1 = None"
proof (cases "file_pre_save env w s")
  case (Pair r t1)
  show ?thesis
  proof (cases r)
    case (Inl e)
    with Pair assms show ?thesis by (simp add: super_save_def)
  next
    case (Inr w1)
    show ?thesis
    proof (cases "model_save_error env w1")
      case None
      with Pair Inr show ?thesis by simp
    next
      case (Some e)
      with Pair Inr assms show ?thesis by (simp add: super_save_def)
    qed
  qed
qed

lemma super_save_row:
  assumes "super_save env w s = (Inr v1, s1)" "pk w = Some k"
  shows "pk v1 = Some k \<and> mimetype v1 = mimetype w \<and> encoding v1 = encoding w
       \<and> v1 \<in> set (versions s1) \<and> (\<forall>r\<in>set (versions s1). pk r = Some k \<longrightarrow> r = v1)"
proof -
  from super_save_pre [OF assms(1)] obtain w1 t1 where
    f: "file_pre_save env w s = (Inr w1, t1)" and m: "model_save_error env w1 = None" by blast
  from file_pre_save_fields [OF f] assms(2)
  have w1: "pk w1 = Some k" "mimetype w1 = mimetype w" "encoding w1 = encoding w" by simp_all
  note u = super_save_keyed [OF f m w1(1)]
  show ?thesis
  proof (cases "list_ex (\<lambda>r. pk r = Some k) (versions t1)")
    case True
    with u have "super_save env w s
        = (Inr w1, t1\<lparr>versions := map (\<lambda>r. if pk r = Some k then w1 else r) (versions t1)\<rparr>)"
      by (simp only: if_True)
    from trans [OF assms(1) [symmetric] this]
    have e: "v1 = w1" "versions s1 = map (\<lambda>r. if pk r = Some k then w1 else r) (versions t1)"
      by simp_all
    from True obtain r0 where r0: "r0 \<in> set (versions t1)" "pk r0 = Some k"
      by (auto simp: list_ex_iff)
    have "w1 \<in> (\<lambda>r. if pk r = Some k then w1 else r) ` set (versions t1)"
      by (rule image_eqI [where x = r0]) (simp_all add: r0)
    then have "w1 \<in> set (versions s1)"
      by (simp only: e(2) set_map)
    moreover have "r = w1" if "r \<in> set (versions s1)" "pk r = Some k" for r
    proof -
      from that(1) obtain q where q: "q \<in> set (versions t1)" "r = (if pk q = Some k then w1 else q)"
        unfolding e(2) set_map by blast
      with that(2) show ?thesis by (cases "pk q = Some k") simp_all
    qed
    ultimately show ?thesis using e(1) w1 by blast
  next
    case False
    with u have "super_save env w s
        = (Inr (w1\<lparr>timestamp := clock t1\<rparr>),
           t1\<lparr>versions := versions t1 @ [w1\<lparr>timestamp := clock t1\<rparr>]\<rparr>)"
      by (simp only: if_False)
    from trans [OF assms(1) [symmetric] this]
    have e: "v1 = w1\<lparr>timestamp := clock t1\<rparr>" "versions s1 = versions t1 @ [v1]"
      by simp_all
    from False have "\<forall>r\<in>set (versions t1). pk r \<noteq> Some k"
      by (auto simp: list_ex_iff)
    with e w1 show ?thesis by auto
  qed
qed

lemma post_save_loop_returns:
  assumes "\<forall>(key, hook)\<in>set (post_save_hooks env).
             \<forall>w t. \<exists>t'. hook w t = (Inr (), t') \<and> versions t' = versions t"
    and "set keys \<subseteq> fst ` set (post_save_hooks env)"
  shows "\<exists>s'. post_save_loop env keys v s = (Inr (), s') \<and> versions s' = versions s"
  using assms(2)
proof (induction keys arbitrary: s)
  case Nil
  then show ?case by simp
next
  case (Cons key keys)
  then have "key \<in> fst ` set (post_save_hooks env)" by simp
  then obtain hook where h: "map_of (post_save_hooks env) key = Some hook"
    by (metis domD dom_map_of_conv_image_fst)
  then have "(key, hook) \<in> set (post_save_hooks env)" by (rule map_of_SomeD)
  with assms(1) obtain t' where t': "hook v s = (Inr (), t')" "versions t' = versions s"
    by blast
  from Cons.prems have "set keys \<subseteq> fst ` set (post_save_hooks env)" by simp
  from Cons.IH [OF this, of t'] obtain s' where
    "post_save_loop env keys v t' = (Inr (), s')" "versions s' = versions t'" by blast
  with h t' show ?case by simp
qed


text \<open>
  C6. The binary exists and detection fails: \<^verbatim>\<open>self.open()\<close> raises, or it returns a
  stream on which \<^verbatim>\<open>get_mimetype\<close> raises. Then \<^verbatim>\<open>update_mimetype(save=False)\<close>, the
  call of the ingestion, returns normally with mimetype and encoding set to the empty
  string and the world untouched. \<^verbatim>\<open>update_mimetype(save=True)\<close> is exactly \<^verbatim>\<open>save\<close> of
  the instance with the two blank fields, so the exception of the detection never reaches
  the caller. And for a saved instance whose \<^verbatim>\<open>super().save()\<close> is accepted, with any
  post-save hooks registered that return normally and leave the table of versions alone,
  \<^verbatim>\<open>update_mimetype(save=True)\<close> returns normally, the instance has the two blank fields,
  its row is in the table, and every row of its key has the two blank fields.
\<close>

theorem update_mimetype_soft_failure:
  assumes "storage s (file_name v) \<noteq> None"
    and "open_version env False v s = Inl e
         \<or> (\<exists>file_object. open_version env False v s = Inr file_object \<and> get_mimetype env file_object = Inl e)"
  shows "update_mimetype env False v s = (Inr (v\<lparr>mimetype := Some [], encoding := Some []\<rparr>), s)
       \<and> update_mimetype env True v s = save env None (v\<lparr>mimetype := Some [], encoding := Some []\<rparr>) s
       \<and> (pk v \<noteq> None
            \<and> (\<exists>v1 s1. super_save env (v\<lparr>mimetype := Some [], encoding := Some []\<rparr>) s = (Inr v1, s1))
            \<and> (\<forall>(key, hook)\<in>set (post_save_hooks env).
                  \<forall>w t. \<exists>t'. hook w t = (Inr (), t') \<and> versions t' = versions t)
            \<longrightarrow> (\<exists>v' s'. update_mimetype env True v s = (Inr v', s')
                   \<and> pk v' = pk v \<and> mimetype v' = Some [] \<and> encoding v' = Some []
                   \<and> v' \<in> set (versions s')
                   \<and> (\<forall>r\<in>set (versions s'). pk r = pk v \<longrightarrow> mimetype r = Some [] \<and> encoding r = Some [])))"
proof -
  let ?b = "v\<lparr>mimetype := Some [], encoding := Some []\<rparr>"
  let ?keys = "sort (map fst (post_save_hooks env))"
  have 1: "update_mimetype env False v s = (Inr ?b, s)"
    using assms by (auto simp: update_mimetype_def update_mimetype_with_def exists_def)
  have 2: "update_mimetype env True v s = save env None ?b s"
    using assms by (auto simp: update_mimetype_def update_mimetype_with_def exists_def)
  have 3: "\<exists>v' s'. save env None ?b s = (Inr v', s')
                   \<and> pk v' = pk v \<and> mimetype v' = Some [] \<and> encoding v' = Some []
                   \<and> v' \<in> set (versions s')
                   \<and> (\<forall>r\<in>set (versions s'). pk r = pk v \<longrightarrow> mimetype r = Some [] \<and> encoding r = Some [])"
    if k0: "pk v \<noteq> None"
      and ss: "\<exists>v1 s1. super_save env ?b s = (Inr v1, s1)"
      and hk: "\<forall>(key, hook)\<in>set (post_save_hooks env).
                  \<forall>w t. \<exists>t'. hook w t = (Inr (), t') \<and> versions t' = versions t"
  proof -
    from k0 obtain k where k: "pk ?b = Some k" by auto
    from ss obtain v1 s1 where s1: "super_save env ?b s = (Inr v1, s1)" by blast
    have kb: "pk ?b = pk v" "mimetype ?b = Some []" "encoding ?b = Some []"
      by simp_all
    note row = super_save_row [OF s1 k]
    from row kb have r1: "pk v1 = pk v" "mimetype v1 = Some []" "encoding v1 = Some []"
      by (simp_all only: k)
    from row have r2: "v1 \<in> set (versions s1)" by blast
    from row have r3: "\<forall>r\<in>set (versions s1). pk r = Some k \<longrightarrow> r = v1" by blast
    have "set ?keys \<subseteq> fst ` set (post_save_hooks env)" by simp
    from post_save_loop_returns [OF hk this, of v1 s1] obtain s2 where
      s2: "post_save_loop env ?keys v1 s1 = (Inr (), s2)" "versions s2 = versions s1" by blast
    have a: "atomic (and_then (super_save env ?b)
            (\<lambda>v1. and_then (post_save_loop env ?keys v1) (\<lambda>_. return v1))) s = (Inr v1, s2)"
      by (simp add: atomic_def and_then_def s1 s2(1) return_def)
    have sv: "save env None ?b s = (Inr v1, s2)"
      unfolding save_def save_with_saved [OF k] a by simp
    have r4: "\<forall>r\<in>set (versions s2). pk r = pk v \<longrightarrow> mimetype r = Some [] \<and> encoding r = Some []"
    proof (intro ballI impI)
      fix r assume "r \<in> set (versions s2)" "pk r = pk v"
      with r3 s2(2) k kb(1) have "r = v1" by simp
      with r1 show "mimetype r = Some [] \<and> encoding r = Some []" by simp
    qed
    from r2 s2(2) have r5: "v1 \<in> set (versions s2)" by simp
    from sv r1 r5 r4 show ?thesis by blast
  qed
  from 1 2 3 show ?thesis by simp
qed


theorem update_mimetype_soft_failure_witness:
  "storage world_ex (file_name version_ex) \<noteq> None
   \<and> (\<exists>file_object. open_version (env_ex\<lparr>get_mimetype := \<lambda>b. Inl (Failure ''sniffer''), post_save_hooks := [(1, hook_note)]\<rparr>) False version_ex world_ex = Inr file_object
        \<and> get_mimetype (env_ex\<lparr>get_mimetype := \<lambda>b. Inl (Failure ''sniffer''), post_save_hooks := [(1, hook_note)]\<rparr>) file_object = Inl (Failure ''sniffer''))
   \<and> pk version_ex \<noteq> None
   \<and> fst (super_save (env_ex\<lparr>get_mimetype := \<lambda>b. Inl (Failure ''sniffer''), post_save_hooks := [(1, hook_note)]\<rparr>)
             (version_ex\<lparr>mimetype := Some [], encoding := Some []\<rparr>) world_ex)
       = Inr (version_ex\<lparr>mimetype := Some [], encoding := Some []\<rparr>)
   \<and> post_save_hooks (env_ex\<lparr>get_mimetype := \<lambda>b. Inl (Failure ''sniffer''), post_save_hooks := [(1, hook_note)]\<rparr>) = [(1, hook_note)]
   \<and> fst (update_mimetype (env_ex\<lparr>get_mimetype := \<lambda>b. Inl (Failure ''sniffer''), post_save_hooks := [(1, hook_note)]\<rparr>) True version_ex world_ex)
       = Inr (version_ex\<lparr>mimetype := Some [], encoding := Some []\<rparr>)
   \<and> versions (snd (update_mimetype (env_ex\<lparr>get_mimetype := \<lambda>b. Inl (Failure ''sniffer''), post_save_hooks := [(1, hook_note)]\<rparr>) True version_ex world_ex))
       = [version_ex\<lparr>mimetype := Some [], encoding := Some []\<rparr>]
   \<and> (\<exists>v' s'. update_mimetype (env_ex\<lparr>get_mimetype := \<lambda>b. Inl (Failure ''sniffer''), post_save_hooks := [(1, hook_note)]\<rparr>) True version_ex world_ex = (Inr v', s')
          \<and> mimetype v' = Some [] \<and> encoding v' = Some [] \<and> v' \<in> set (versions s'))
   \<and> map mimetype (versions (snd (save (env_ex\<lparr>get_mimetype := \<lambda>b. Inl (Failure ''sniffer'')\<rparr>) None version_new world_new)))
       = [Some []]"
proof -
  let ?env = "env_ex\<lparr>get_mimetype := \<lambda>b. Inl (Failure ''sniffer''), post_save_hooks := [(1, hook_note)]\<rparr>"
  let ?b = "version_ex\<lparr>mimetype := Some [], encoding := Some []\<rparr>"
  have h1: "storage world_ex (file_name version_ex) \<noteq> None"
    by (simp add: world_ex_def version_ex_def)
  have h2: "open_version ?env False version_ex world_ex = Inl (Failure ''sniffer'')
         \<or> (\<exists>file_object. open_version ?env False version_ex world_ex = Inr file_object \<and> get_mimetype ?env file_object = Inl (Failure ''sniffer''))"
    by (simp add: open_version_def storage_open_def world_ex_def version_ex_def env_ex_def)
  have h3: "pk version_ex \<noteq> None"
    by (simp add: version_ex_def)
  have h4: "super_save ?env ?b world_ex = (Inr ?b, world_ex\<lparr>versions := [?b]\<rparr>)"
    by (simp add: super_save_def file_pre_save_def version_ex_def world_ex_def env_ex_def)
  have h5: "\<forall>(key, hook)\<in>set (post_save_hooks ?env).
              \<forall>w t. \<exists>t'. hook w t = (Inr (), t') \<and> versions t' = versions t"
    by (simp add: hook_note_def logger_def)
  have k: "pk ?b = Some 1"
    by (simp add: version_ex_def)
  have l: "post_save_loop ?env (sort (map fst (post_save_hooks ?env))) ?b (world_ex\<lparr>versions := [?b]\<rparr>)
      = (Inr (), logger INFO ''saved'' [ArgVersion (Some 1)] (world_ex\<lparr>versions := [?b]\<rparr>))"
    by (simp add: hook_note_def k)
  have a: "atomic (and_then (super_save ?env ?b)
            (\<lambda>v1. and_then (post_save_loop ?env (sort (map fst (post_save_hooks ?env))) v1) (\<lambda>_. return v1))) world_ex
      = (Inr ?b, logger INFO ''saved'' [ArgVersion (Some 1)] (world_ex\<lparr>versions := [?b]\<rparr>))"
    by (simp add: atomic_def and_then_def h4 hook_note_def k return_def)
  have s: "save ?env None ?b world_ex
      = (Inr ?b, logger INFO ''saved'' [ArgVersion (Some 1)] (world_ex\<lparr>versions := [?b]\<rparr>))"
    unfolding save_def save_with_saved [OF k] a by simp
  have i: "map mimetype (versions (snd (save (env_ex\<lparr>get_mimetype := \<lambda>b. Inl (Failure ''sniffer'')\<rparr>) None version_new world_new)))
       = [Some []]"
    by (simp add: env_ex_def version_new_def world_new_def world_ex_def doc_ex_def pipeline_defs upto.simps)
  from update_mimetype_soft_failure [OF h1 h2, THEN conjunct2, THEN conjunct1] s
  have u: "update_mimetype ?env True version_ex world_ex
      = (Inr ?b, logger INFO ''saved'' [ArgVersion (Some 1)] (world_ex\<lparr>versions := [?b]\<rparr>))"
    by simp
  have p: "post_save_hooks ?env = [(1, hook_note)]"
    by simp
  have o: "\<exists>file_object. open_version ?env False version_ex world_ex = Inr file_object
        \<and> get_mimetype ?env file_object = Inl (Failure ''sniffer'')"
    by (simp add: open_version_def storage_open_def world_ex_def version_ex_def env_ex_def)
  have f: "fst (super_save ?env ?b world_ex) = Inr ?b"
    by (simp add: h4)
  have u1: "fst (update_mimetype ?env True version_ex world_ex) = Inr ?b"
    by (simp add: u)
  have u2: "versions (snd (update_mimetype ?env True version_ex world_ex)) = [?b]"
    by (simp add: u logger_def)
  have h4': "\<exists>v1 s1. super_save ?env ?b world_ex = (Inr v1, s1)"
    using h4 by blast
  from update_mimetype_soft_failure [OF h1 h2, THEN conjunct2, THEN conjunct2] h3 h4' h5
  have g: "\<exists>v' s'. update_mimetype ?env True version_ex world_ex = (Inr v', s')
          \<and> mimetype v' = Some [] \<and> encoding v' = Some [] \<and> v' \<in> set (versions s')"
    by blast
  from h1 o h3 f p u1 u2 g i show ?thesis
    by (intro conjI)
qed


subsection \<open>\<^verbatim>\<open>update_page_count\<close> on a format the converter cannot paginate\<close>

text \<open>
  C1. The comment in the branch of \<^verbatim>\<open>PageCountError\<close> says that 1 is used as the page
  count, and the branch is \<^verbatim>\<open>pass\<close>. Evaluated on a stored version whose converter raises
  \<^verbatim>\<open>PageCountError\<close>: \<^verbatim>\<open>update_page_count\<close> returns \<^verbatim>\<open>None\<close> without raising and
  leaves the world as it was, so the version still has no page. The ingestion of the same
  binary as a new version by \<^verbatim>\<open>save\<close> succeeds as well, and the page table is empty after
  it: there is no page with number 1.
\<close>

theorem unpaginatable_version_has_no_page:
  "update_page_count (env_ex\<lparr>get_page_count := \<lambda>b m. Inl PageCountError\<rparr>) False version_ex world_ex
     = (Inr (None, version_ex), world_ex)
   \<and> pages_all version_ex world_ex = []
   \<and> fst (save (env_ex\<lparr>get_page_count := \<lambda>b m. Inl PageCountError\<rparr>) None
            (version_ex\<lparr>pk := None\<rparr>) (world_ex\<lparr>versions := []\<rparr>))
       = Inr (version_ex\<lparr>timestamp := 50\<rparr>)
   \<and> pages (snd (save (env_ex\<lparr>get_page_count := \<lambda>b m. Inl PageCountError\<rparr>) None
            (version_ex\<lparr>pk := None\<rparr>) (world_ex\<lparr>versions := []\<rparr>))) = []"
  by (simp add: update_page_count_def update_page_count_with_def open_version_def storage_open_def
      env_ex_def version_ex_def world_ex_def doc_ex_def pages_all_def
      save_def save_with_def save_saved_def save_block_def and_then_def atomic_def rollback_def
      super_save_def file_pre_save_def fresh_pk_def remember_def List.map_filter_def return_def update_checksum_with_def
      update_mimetype_with_def exists_def logger_def fix_orientation_def document_save_def commit_def Let_def)

subsection \<open>\<^verbatim>\<open>get_intermidiate_file\<close> on a format without office conversion\<close>

lemma cache_partition_get_file:
  "get_file (snd (cache_partition v s)) part name = get_file s part name"
  by (simp add: cache_partition_def get_file_def Let_def split: option.splits)

text \<open>
  C8. No intermediate file is cached for the version, \<^verbatim>\<open>self.open()\<close> gives a stream
  and the converter's \<^verbatim>\<open>to_pdf\<close> raises \<^verbatim>\<open>InvalidOfficeFormat\<close> on it. Then
  \<^verbatim>\<open>get_intermidiate_file\<close> returns normally, and what it returns is the stream of
  \<^verbatim>\<open>self.open()\<close>: the version's own binary as every reader gets it, which with no
  pre-open hook registered is the stored binary itself. No file is added to any cache
  partition, the content store is untouched, and the exception is not logged as an error:
  the world differs only by the debug record and by the partition that
  \<^verbatim>\<open>get_or_create\<close> made if it was missing.
\<close>

theorem intermediate_file_falls_back_to_original:
  assumes "get_file s (''version-'' @ uuid v) ''intermediate_file'' = None"
    and "open_version env False v s = Inr file_object"
    and "to_pdf env file_object = Inl InvalidOfficeFormat"
  shows "get_intermidiate_file env v s =
           (Inr file_object, logger DEBUG ''Intermidiate file not found.'' [] (snd (cache_partition v s)))
       \<and> (\<forall>part name. get_file (snd (get_intermidiate_file env v s)) part name = get_file s part name)
       \<and> storage (snd (get_intermidiate_file env v s)) = storage s
       \<and> (pre_open_hooks env = [] \<longrightarrow> storage s (file_name v) = Some file_object)"
proof -
  let ?s1 = "snd (cache_partition v s)"
  let ?s2 = "logger DEBUG ''Intermidiate file not found.'' [] ?s1"
  have p: "fst (cache_partition v s) = ''version-'' @ uuid v"
    by (simp add: cache_partition_def Let_def)
  have st: "storage ?s2 = storage s"
    by (simp add: cache_partition_def logger_def Let_def split: option.splits)
  have miss: "get_file ?s1 (''version-'' @ uuid v) ''intermediate_file'' = None"
    using assms(1) by (simp add: cache_partition_get_file)
  have op: "open_version env False v ?s2 = Inr file_object"
    using open_version_storage [OF st] assms(2) by simp
  have r: "get_intermidiate_file env v s = (Inr file_object, ?s2)"
    using miss op assms(3) p
    by (simp add: get_intermidiate_file_def split_beta Let_def)
  have g: "get_file ?s2 part name = get_file s part name" for part name
    using cache_partition_get_file [of v s part name] by (simp add: logger_def get_file_def)
  have raw: "storage s (file_name v) = Some file_object" if "pre_open_hooks env = []"
    using assms(2) that by (simp add: open_version_def storage_open_def split: option.splits)
  from r g st raw show ?thesis by simp
qed

theorem intermediate_file_falls_back_to_original_witness:
  "get_file world_ex (''version-'' @ uuid version_ex) ''intermediate_file'' = None
   \<and> open_version (env_ex\<lparr>to_pdf := \<lambda>b. Inl InvalidOfficeFormat\<rparr>) False version_ex world_ex = Inr ''abc''
   \<and> to_pdf (env_ex\<lparr>to_pdf := \<lambda>b. Inl InvalidOfficeFormat\<rparr>) ''abc'' = Inl InvalidOfficeFormat
   \<and> pre_open_hooks (env_ex\<lparr>to_pdf := \<lambda>b. Inl InvalidOfficeFormat\<rparr>) = []
   \<and> fst (get_intermidiate_file (env_ex\<lparr>to_pdf := \<lambda>b. Inl InvalidOfficeFormat\<rparr>) version_ex world_ex) = Inr ''abc''
   \<and> storage world_ex (file_name version_ex) = Some ''abc''"
proof -
  let ?env = "env_ex\<lparr>to_pdf := \<lambda>b. Inl InvalidOfficeFormat\<rparr>"
  have h1: "get_file world_ex (''version-'' @ uuid version_ex) ''intermediate_file'' = None"
    by (simp add: get_file_def world_ex_def)
  have h2: "open_version ?env False version_ex world_ex = Inr ''abc''"
    by (simp add: open_version_def storage_open_def world_ex_def version_ex_def env_ex_def)
  have h3: "to_pdf ?env ''abc'' = Inl InvalidOfficeFormat"
    by simp
  have h4: "pre_open_hooks ?env = []"
    by (simp add: env_ex_def)
  from intermediate_file_falls_back_to_original [OF h1 h2 h3] h1 h2 h3 h4 show ?thesis
    by simp
qed

subsection \<open>\<^verbatim>\<open>delete\<close>\<close>

lemma delete_pages_ok:
  assumes "\<forall>p\<in>set ps. page_delete_error env p = None"
  shows "delete_pages env ps s =
    (Inr (), s\<lparr>pages := filter (\<lambda>q. page_pk q \<notin> page_pk ` set ps) (pages s),
               journal := journal s @ map (\<lambda>p. PageDeleted (page_pk p)) ps,
               page_pk_seq := remember (map page_pk ps) (page_pk_seq s)\<rparr>)"
  using assms
proof (induction ps arbitrary: s)
  case Nil
  then show ?case by (simp add: remember_def)
next
  case (Cons p ps)
  have "filter (\<lambda>q. page_pk q \<notin> page_pk ` set ps) (filter (\<lambda>q. page_pk q \<noteq> page_pk p) (pages s))
      = filter (\<lambda>q. page_pk q \<notin> page_pk ` set (p # ps)) (pages s)"
    by (auto intro: filter_cong)
  with Cons show ?case by (simp add: page_delete_def remember_def)
qed

lemma delete_pages_fail:
  assumes "\<forall>p\<in>set ps. page_delete_error env p = None" and "page_delete_error env p = Some e"
  shows "delete_pages env (ps @ p # qs) s =
    (Inl e, s\<lparr>pages := filter (\<lambda>q. page_pk q \<notin> page_pk ` set ps) (pages s),
              journal := journal s @ map (\<lambda>p. PageDeleted (page_pk p)) ps,
              page_pk_seq := remember (map page_pk ps) (page_pk_seq s)\<rparr>)"
  using assms
proof (induction ps arbitrary: s)
  case Nil
  then show ?case by (simp add: page_delete_def remember_def)
next
  case (Cons r ps)
  have "filter (\<lambda>q. page_pk q \<notin> page_pk ` set ps) (filter (\<lambda>q. page_pk q \<noteq> page_pk r) (pages s))
      = filter (\<lambda>q. page_pk q \<notin> page_pk ` set (r # ps)) (pages s)"
    by (auto intro: filter_cong)
  with Cons show ?case by (simp add: page_delete_def remember_def)
qed

text \<open>
  The claim C2 evaluated. With a page whose deletion raises, \<^verbatim>\<open>delete\<close> raises that
  exception and leaves the world as it was: the binary is still in the content store and
  the row is still there. With nothing failing, the journal of \<^verbatim>\<open>delete\<close> has the two
  pages, the binary and the row, and the intermediate file in the version's cache partition
  is still there afterwards.
\<close>

theorem delete_aborts_on_page_failure_and_keeps_cache:
  "delete (env_ex\<lparr>page_delete_error := \<lambda>p. if page_pk p = 1 then Some (Failure ''locked'') else None\<rparr>)
      version_ex world_pages = (Inl (Failure ''locked''), world_pages)
   \<and> storage world_pages (file_name version_ex) = Some ''abc''
   \<and> fst (delete env_ex version_ex world_pages) = Inr ()
   \<and> journal (snd (delete env_ex version_ex world_pages))
        = [PageDeleted 1, PageDeleted 2, StorageDeleted ''f1'', VersionDeleted 1]
   \<and> get_file (snd (delete env_ex version_ex world_pages)) ''version-u-1'' ''intermediate_file'' = Some ''pdf''"
  by (simp add: delete_def and_then_def pages_all_def page_delete_def storage_delete_def super_delete_def
      get_file_def env_ex_def version_ex_def world_pages_def world_ex_def page_one_def page_two_def)

text \<open>
  C2, as the code has it. \<^verbatim>\<open>delete\<close> deletes each of the version's pages in page
  order, then removes the binary from the content store, then deletes the row, in that
  order, and never touches the cache. When the deletion of a page raises, the exception
  goes to the caller: the pages before it are deleted, and the binary, the row and the
  cache are as before.
\<close>

theorem delete_pages_then_binary_then_row:
  "(pk v = Some k \<and> (\<forall>p\<in>set (pages_all v s). page_delete_error env p = None)
      \<and> storage_delete_error env (file_name v) = None \<and> model_delete_error env v = None
    \<longrightarrow> (\<exists>s'. delete env v s = (Inr (), s')
          \<and> journal s' = journal s @ map (\<lambda>p. PageDeleted (page_pk p)) (pages_all v s)
                            @ [StorageDeleted (file_name v), VersionDeleted k]
          \<and> pages_all v s' = [] \<and> storage s' (file_name v) = None
          \<and> versions s' = filter (\<lambda>r. pk r \<noteq> Some k) (versions s)
          \<and> cache s' = cache s))
   \<and> (pages_all v s = ps @ p # qs \<and> (\<forall>q\<in>set ps. page_delete_error env q = None)
        \<and> page_delete_error env p = Some e
    \<longrightarrow> (\<exists>s'. delete env v s = (Inl e, s')
          \<and> journal s' = journal s @ map (\<lambda>p. PageDeleted (page_pk p)) ps
          \<and> storage s' = storage s \<and> versions s' = versions s \<and> cache s' = cache s))"
proof (intro conjI impI)
  assume a: "pk v = Some k \<and> (\<forall>p\<in>set (pages_all v s). page_delete_error env p = None)
      \<and> storage_delete_error env (file_name v) = None \<and> model_delete_error env v = None"
  then show "\<exists>s'. delete env v s = (Inr (), s')
          \<and> journal s' = journal s @ map (\<lambda>p. PageDeleted (page_pk p)) (pages_all v s)
                            @ [StorageDeleted (file_name v), VersionDeleted k]
          \<and> pages_all v s' = [] \<and> storage s' (file_name v) = None
          \<and> versions s' = filter (\<lambda>r. pk r \<noteq> Some k) (versions s)
          \<and> cache s' = cache s"
    by (simp add: delete_def and_then_def delete_pages_ok storage_delete_def super_delete_def pages_all_def)
next
  assume b: "pages_all v s = ps @ p # qs \<and> (\<forall>q\<in>set ps. page_delete_error env q = None)
        \<and> page_delete_error env p = Some e"
  then have "delete_pages env (pages_all v s) s =
    (Inl e, s\<lparr>pages := filter (\<lambda>q. page_pk q \<notin> page_pk ` set ps) (pages s),
              journal := journal s @ map (\<lambda>p. PageDeleted (page_pk p)) ps,
              page_pk_seq := remember (map page_pk ps) (page_pk_seq s)\<rparr>)"
    using delete_pages_fail [of ps env p e qs s] by simp
  then show "\<exists>s'. delete env v s = (Inl e, s')
          \<and> journal s' = journal s @ map (\<lambda>p. PageDeleted (page_pk p)) ps
          \<and> storage s' = storage s \<and> versions s' = versions s \<and> cache s' = cache s"
    by (simp add: delete_def and_then_def)
qed

theorem delete_pages_then_binary_then_row_witness:
  "pk version_ex = Some 1
   \<and> page_delete_error env_ex page_one = None \<and> page_delete_error env_ex page_two = None
   \<and> storage_delete_error env_ex (file_name version_ex) = None \<and> model_delete_error env_ex version_ex = None
   \<and> (\<exists>s'. delete env_ex version_ex world_pages = (Inr (), s')
         \<and> journal s' = [PageDeleted 1, PageDeleted 2, StorageDeleted ''f1'', VersionDeleted 1]
         \<and> versions s' = [] \<and> cache s' = cache world_pages)
   \<and> pages_all version_ex world_pages = [] @ page_one # [page_two]
   \<and> page_delete_error (env_ex\<lparr>page_delete_error := \<lambda>p. Some (Failure ''locked'')\<rparr>) page_one = Some (Failure ''locked'')
   \<and> (\<exists>s'. delete (env_ex\<lparr>page_delete_error := \<lambda>p. Some (Failure ''locked'')\<rparr>) version_ex world_pages = (Inl (Failure ''locked''), s')
         \<and> journal s' = [] \<and> storage s' = storage world_pages \<and> versions s' = [version_ex])"
proof -
  have pa: "pages_all version_ex world_pages = [page_one, page_two]"
    by (simp add: pages_all_def version_ex_def world_pages_def world_ex_def page_one_def page_two_def)
  have e: "page_delete_error env_ex = (\<lambda>_. None)" "storage_delete_error env_ex = (\<lambda>_. None)"
    "model_delete_error env_ex = (\<lambda>_. None)"
    by (simp_all add: env_ex_def)
  have k: "pk version_ex = Some 1" "file_name version_ex = ''f1''"
    by (simp_all add: version_ex_def)
  have w: "journal world_pages = []" "versions world_pages = [version_ex]"
    by (simp_all add: world_pages_def world_ex_def)
  from delete_pages_then_binary_then_row [of version_ex 1 world_pages env_ex "[]" page_one "[page_two]" "Failure ''locked''"]
  have 1: "\<exists>s'. delete env_ex version_ex world_pages = (Inr (), s')
         \<and> journal s' = [PageDeleted 1, PageDeleted 2, StorageDeleted ''f1'', VersionDeleted 1]
         \<and> versions s' = [] \<and> cache s' = cache world_pages"
    by (simp add: pa e k w page_one_def page_two_def) blast
  from delete_pages_then_binary_then_row [of version_ex 1 world_pages "env_ex\<lparr>page_delete_error := \<lambda>p. Some (Failure ''locked'')\<rparr>" "[]" page_one "[page_two]" "Failure ''locked''"]
  have 2: "\<exists>s'. delete (env_ex\<lparr>page_delete_error := \<lambda>p. Some (Failure ''locked'')\<rparr>) version_ex world_pages = (Inl (Failure ''locked''), s')
         \<and> journal s' = [] \<and> storage s' = storage world_pages \<and> versions s' = [version_ex]"
    by (simp add: pa w) blast
  from 1 2 show ?thesis by (simp add: pa e k)
qed

subsection \<open>\<^verbatim>\<open>fix_orientation\<close>\<close>

lemma fix_orientation_loop_ok:
  assumes "\<forall>p\<in>set ps. \<exists>d. detect_orientation env p = Inr d"
  shows "fix_orientation_loop env ps s =
    (Inr (), s\<lparr>transformations := transformations s @ corrections env ps\<rparr>)"
  using assms
proof (induction ps arbitrary: s)
  case Nil
  then show ?case by (simp add: corrections_def)
next
  case (Cons p ps)
  then obtain d where d: "detect_orientation env p = Inr d" by auto
  have c: "corrections env (p # ps) = corrections env [p] @ corrections env ps"
    by (simp add: corrections_def)
  from Cons d show ?case
    by (cases d) (simp_all add: c add_for_model_def, simp_all add: corrections_def)
qed

lemma fix_orientation_loop_fail:
  assumes "\<forall>q\<in>set ps. \<exists>d. detect_orientation env q = Inr d" and "detect_orientation env p = Inl e"
  shows "fix_orientation_loop env (ps @ p # qs) s =
    (Inl e, s\<lparr>transformations := transformations s @ corrections env ps\<rparr>)"
  using assms
proof (induction ps arbitrary: s)
  case Nil
  then show ?case by (simp add: corrections_def)
next
  case (Cons r ps)
  then obtain d where d: "detect_orientation env r = Inr d" by auto
  have c: "corrections env (r # ps) = corrections env [r] @ corrections env ps"
    by (simp add: corrections_def)
  from Cons d show ?case
    by (cases d) (simp_all add: c add_for_model_def, simp_all add: corrections_def)
qed

text \<open>
  The claim C3 evaluated. The detector raises on page 1 and finds 90 degrees on page 2:
  \<^verbatim>\<open>fix_orientation\<close> raises and no rotation is recorded for page 2. The ingestion of
  a new version under the same detector raises the same exception and leaves no row.
\<close>

theorem fix_orientation_stops_at_failing_page:
  "fix_orientation
     (env_ex\<lparr>detect_orientation := \<lambda>p. if page_pk p = 1 then Inl (Failure ''osd'') else Inr (Some 90)\<rparr>)
     version_ex world_pages = (Inl (Failure ''osd''), world_pages)
   \<and> transformations world_pages = []
   \<and> detect_orientation
       (env_ex\<lparr>detect_orientation := \<lambda>p. if page_pk p = 1 then Inl (Failure ''osd'') else Inr (Some 90)\<rparr>)
       page_two = Inr (Some 90)
   \<and> page_two \<in> set (pages_all version_ex world_pages)
   \<and> fst (save (env_ex\<lparr>detect_orientation := \<lambda>p. if page_pk p = 1 then Inl (Failure ''osd'') else Inr (Some 90)\<rparr>)
              None (version_ex\<lparr>pk := None\<rparr>) (world_ex\<lparr>versions := []\<rparr>)) = Inl (Failure ''osd'')
   \<and> versions (snd (save (env_ex\<lparr>detect_orientation := \<lambda>p. if page_pk p = 1 then Inl (Failure ''osd'') else Inr (Some 90)\<rparr>)
              None (version_ex\<lparr>pk := None\<rparr>) (world_ex\<lparr>versions := []\<rparr>))) = []"
  by (simp add: fix_orientation_def pages_all_def env_ex_def version_ex_def world_pages_def world_ex_def
      page_one_def page_two_def doc_ex_def pipeline_defs upto.simps)

text \<open>
  C3, as the code has it. \<^verbatim>\<open>fix_orientation\<close> visits the pages in page order. When
  the detector raises on no page, every page is processed: the rotations due for all of them
  are appended. When it raises on a page, the exception goes to the caller, with the
  rotations of the pages before that page recorded and none for the pages after it.
\<close>

theorem fix_orientation_processes_pages_up_to_first_failure:
  "((\<forall>p\<in>set (pages_all v s). \<exists>d. detect_orientation env p = Inr d)
     \<longrightarrow> fix_orientation env v s =
          (Inr (), s\<lparr>transformations := transformations s @ corrections env (pages_all v s)\<rparr>))
   \<and> (pages_all v s = ps @ p # qs \<and> (\<forall>q\<in>set ps. \<exists>d. detect_orientation env q = Inr d)
        \<and> detect_orientation env p = Inl e
     \<longrightarrow> fix_orientation env v s =
          (Inl e, s\<lparr>transformations := transformations s @ corrections env ps\<rparr>))"
  by (simp add: fix_orientation_def fix_orientation_loop_ok fix_orientation_loop_fail)

theorem fix_orientation_processes_pages_up_to_first_failure_witness:
  "detect_orientation (env_ex\<lparr>detect_orientation := \<lambda>p. Inr (Some 90)\<rparr>) page_one = Inr (Some 90)
   \<and> detect_orientation (env_ex\<lparr>detect_orientation := \<lambda>p. Inr (Some 90)\<rparr>) page_two = Inr (Some 90)
   \<and> map arguments (transformations (snd (fix_orientation (env_ex\<lparr>detect_orientation := \<lambda>p. Inr (Some 90)\<rparr>) version_ex world_pages)))
        = [''{\"degrees\": 270}'', ''{\"degrees\": 270}'']
   \<and> pages_all version_ex world_pages = [page_one] @ page_two # []
   \<and> detect_orientation (env_ex\<lparr>detect_orientation := \<lambda>p. if page_pk p = 2 then Inl (Failure ''osd'') else Inr (Some 90)\<rparr>) page_one = Inr (Some 90)
   \<and> detect_orientation (env_ex\<lparr>detect_orientation := \<lambda>p. if page_pk p = 2 then Inl (Failure ''osd'') else Inr (Some 90)\<rparr>) page_two = Inl (Failure ''osd'')
   \<and> fst (fix_orientation (env_ex\<lparr>detect_orientation := \<lambda>p. if page_pk p = 2 then Inl (Failure ''osd'') else Inr (Some 90)\<rparr>) version_ex world_pages)
        = Inl (Failure ''osd'')
   \<and> map content_object (transformations (snd (fix_orientation (env_ex\<lparr>detect_orientation := \<lambda>p. if page_pk p = 2 then Inl (Failure ''osd'') else Inr (Some 90)\<rparr>) version_ex world_pages)))
        = [1]"
proof -
  let ?ok = "env_ex\<lparr>detect_orientation := \<lambda>p. Inr (Some 90)\<rparr>"
  let ?bad = "env_ex\<lparr>detect_orientation := \<lambda>p. if page_pk p = 2 then Inl (Failure ''osd'') else Inr (Some 90)\<rparr>"
  have pa: "pages_all version_ex world_pages = [page_one, page_two]"
    by (simp add: pages_all_def version_ex_def world_pages_def world_ex_def page_one_def page_two_def)
  have t: "transformations world_pages = []"
    by (simp add: world_pages_def world_ex_def)
  have s270: "str_int 270 = ''270''"
    by (simp add: str_int_def str_nat.simps)
  from fix_orientation_processes_pages_up_to_first_failure [of version_ex world_pages ?ok "[]" page_one "[]" "Failure ''osd''"]
  have 1: "map arguments (transformations (snd (fix_orientation ?ok version_ex world_pages)))
        = [''{\"degrees\": 270}'', ''{\"degrees\": 270}'']"
    by (simp add: pa t corrections_def s270)
  from fix_orientation_processes_pages_up_to_first_failure [of version_ex world_pages ?bad "[page_one]" page_two "[]" "Failure ''osd''"]
  have 2: "fix_orientation ?bad version_ex world_pages
      = (Inl (Failure ''osd''), world_pages\<lparr>transformations := transformations world_pages @ corrections ?bad [page_one]\<rparr>)"
    by (simp add: pa page_one_def page_two_def)
  have 3: "map content_object (corrections ?bad [page_one]) = [1]"
    by (simp add: corrections_def page_one_def)
  from 1 2 3 show ?thesis
    by (simp add: pa t page_one_def page_two_def)
qed

subsection \<open>\<^verbatim>\<open>revert\<close>\<close>

lemma delete_pages_versions:
  "versions (snd (delete_pages env ps s)) = versions s"
proof (induction ps arbitrary: s)
  case Nil
  then show ?case by simp
next
  case (Cons p ps)
  show ?case
  proof (cases "page_delete_error env p")
    case None
    then show ?thesis using Cons [of "snd (page_delete env p s)"]
      by (simp add: page_delete_def)
  next
    case (Some e)
    then show ?thesis by (simp add: page_delete_def)
  qed
qed

lemma delete_versions_table:
  "delete env w s = (r, s') \<Longrightarrow>
   (case r of
      Inl e \<Rightarrow> versions s' = versions s
    | Inr u \<Rightarrow> pk w \<noteq> None \<and> versions s' = filter (\<lambda>x. pk x \<noteq> pk w) (versions s))"
proof -
  assume a: "delete env w s = (r, s')"
  obtain r1 s1 where d: "delete_pages env (pages_all w s) s = (r1, s1)"
    by (cases "delete_pages env (pages_all w s) s")
  then have v1: "versions s1 = versions s"
    using delete_pages_versions [of env "pages_all w s" s] by simp
  show ?thesis
    using a d v1
    by (auto simp: delete_def and_then_def storage_delete_def super_delete_def
        split: sum.splits option.splits)
qed

lemma delete_table_Inl:
  "delete env w s = (Inl e, s') \<Longrightarrow> versions s' = versions s"
  using delete_versions_table [of env w s "Inl e" s'] by simp

lemma delete_table_Inr:
  "delete env w s = (Inr u, s') \<Longrightarrow> versions s' = filter (\<lambda>x. pk x \<noteq> pk w) (versions s)"
  using delete_versions_table [of env w s "Inr u" s'] by simp

lemma delete_versions_loop:
  "delete_versions env ws s = (r, s') \<Longrightarrow>
   \<exists>ds. set ds \<subseteq> set ws \<and> (r = Inr () \<longrightarrow> ds = ws)
        \<and> versions s' = filter (\<lambda>x. pk x \<notin> pk ` set ds) (versions s)"
proof (induction ws arbitrary: s)
  case Nil
  then show ?case by auto
next
  case (Cons w ws)
  obtain r1 s1 where d: "delete env w s = (r1, s1)"
    by (cases "delete env w s")
  show ?case
  proof (cases r1)
    case (Inl e)
    with d Cons.prems have "versions s' = versions s"
      using delete_table_Inl [of env w s e s1] by simp
    moreover from Inl d Cons.prems have "r \<noteq> Inr ()" by auto
    ultimately show ?thesis by (intro exI [of _ "[]"]) simp
  next
    case (Inr u)
    with d Cons.prems have rest: "delete_versions env ws s1 = (r, s')" by simp
    from Inr d have v1: "versions s1 = filter (\<lambda>x. pk x \<noteq> pk w) (versions s)"
      using delete_table_Inr [of env w s u s1] by simp
    from Cons.IH [OF rest] obtain ds where ds: "set ds \<subseteq> set ws" "r = Inr () \<longrightarrow> ds = ws"
      "versions s' = filter (\<lambda>x. pk x \<notin> pk ` set ds) (versions s1)" by blast
    have "versions s' = filter (\<lambda>x. pk x \<notin> pk ` set (w # ds)) (versions s)"
      unfolding ds(3) v1 by (auto intro: filter_cong)
    with ds(1,2) show ?thesis by (intro exI [of _ "w # ds"]) auto
  qed
qed

lemma delete_ok:
  assumes "pk w \<noteq> None" "model_delete_error env w = None"
    "storage_delete_error env (file_name w) = None" "\<forall>p. page_delete_error env p = None"
  shows "fst (delete env w s) = Inr ()"
  using assms
  by (auto simp: delete_def and_then_def delete_pages_ok storage_delete_def super_delete_def)

lemma delete_versions_ok:
  assumes "\<forall>w\<in>set ws. pk w \<noteq> None \<and> model_delete_error env w = None
             \<and> storage_delete_error env (file_name w) = None"
    and "\<forall>p. page_delete_error env p = None"
  shows "fst (delete_versions env ws s) = Inr ()"
  using assms
proof (induction ws arbitrary: s)
  case Nil
  then show ?case by simp
next
  case (Cons w ws)
  then have "fst (delete env w s) = Inr ()"
    by (simp add: delete_ok)
  then obtain s1 where "delete env w s = (Inr (), s1)"
    by (cases "delete env w s") auto
  with Cons show ?case by simp
qed

lemma set_versions_after:
  "set (versions_after v s) =
     {w \<in> set (versions s). doc_pk (document w) = doc_pk (document v) \<and> timestamp v < timestamp w}"
  by (auto simp: versions_after_def)

lemma filter_by_pk:
  assumes "distinct (map pk xs)" "set ds \<subseteq> set xs"
  shows "filter (\<lambda>x. pk x \<notin> pk ` set ds) xs = filter (\<lambda>x. x \<notin> set ds) xs"
proof (rule filter_cong [OF refl])
  fix x assume x: "x \<in> set xs"
  from assms(1) have "inj_on pk (set xs)" by (simp add: distinct_map)
  with x assms(2) show "(pk x \<notin> pk ` set ds) = (x \<notin> set ds)"
    by (auto dest: inj_onD)
qed

text \<open>
  C4. The table of versions has one row per primary key. Whenever \<^verbatim>\<open>revert\<close> returns
  normally, the rows left are exactly the rows that are not a version of the same document
  with a timestamp strictly greater than the target's: every later sibling is gone and
  nothing else is. Whatever the outcome, also when a deletion raises halfway, no row of
  another document and no row with a timestamp less than or equal to the target's is
  deleted, and the target itself stays. And \<^verbatim>\<open>revert\<close> does return normally when none of
  the deletions it makes raises.
\<close>

theorem revert_deletes_exactly_later_versions:
  assumes "distinct (map pk (versions s))"
  shows "(\<forall>s'. revert env user v s = (Inr (), s') \<longrightarrow>
            versions s' = filter (\<lambda>w. \<not> (doc_pk (document w) = doc_pk (document v) \<and> timestamp v < timestamp w))
                            (versions s))
       \<and> (\<forall>w\<in>set (versions s).
            \<not> (doc_pk (document w) = doc_pk (document v) \<and> timestamp v < timestamp w)
            \<longrightarrow> w \<in> set (versions (snd (revert env user v s))))
       \<and> (v \<in> set (versions s) \<longrightarrow> v \<in> set (versions (snd (revert env user v s))))
       \<and> ((\<forall>w\<in>set (versions_after v s). pk w \<noteq> None \<and> model_delete_error env w = None
                \<and> storage_delete_error env (file_name w) = None)
            \<and> (\<forall>p. page_delete_error env p = None)
          \<longrightarrow> fst (revert env user v s) = Inr ())"
proof -
  let ?later = "\<lambda>w. doc_pk (document w) = doc_pk (document v) \<and> timestamp v < timestamp w"
  let ?s2 = "commit (EventDocumentVersionRevert user (doc_pk (document v)))
               (logger INFO ''Reverting to document document: %s to version: %s''
                  [ArgDocument (doc_pk (document v)), ArgVersion (pk v)] s)"
  have v2: "versions ?s2 = versions s"
    by (simp add: commit_def logger_def)
  then have va: "versions_after v ?s2 = versions_after v s"
    by (simp add: versions_after_def)
  have rv: "revert env user v s = delete_versions env (versions_after v s) ?s2"
    by (simp add: revert_def Let_def va)
  obtain r s' where res: "delete_versions env (versions_after v s) ?s2 = (r, s')"
    by (cases "delete_versions env (versions_after v s) ?s2")
  from delete_versions_loop [OF res] obtain ds where
    ds: "set ds \<subseteq> set (versions_after v s)" "r = Inr () \<longrightarrow> ds = versions_after v s"
      "versions s' = filter (\<lambda>x. pk x \<notin> pk ` set ds) (versions s)"
    unfolding v2 by blast
  from ds(1) have sub: "set ds \<subseteq> set (versions s)"
    by (auto simp: set_versions_after)
  have vs: "versions s' = filter (\<lambda>x. x \<notin> set ds) (versions s)"
    unfolding ds(3) by (rule filter_by_pk [OF assms sub])
  have 1: "versions s' = filter (\<lambda>w. \<not> ?later w) (versions s)" if "r = Inr ()"
  proof -
    from that ds(2) have "ds = versions_after v s" by simp
    then show ?thesis
      unfolding vs by (auto simp: set_versions_after intro: filter_cong)
  qed
  have 2: "w \<in> set (versions s')" if "w \<in> set (versions s)" "\<not> ?later w" for w
    using that ds(1) unfolding vs by (auto simp: set_versions_after)
  have 3: "fst (revert env user v s) = Inr ()"
    if "\<forall>w\<in>set (versions_after v s). pk w \<noteq> None \<and> model_delete_error env w = None
                \<and> storage_delete_error env (file_name w) = None"
      "\<forall>p. page_delete_error env p = None"
    unfolding rv using delete_versions_ok [OF that] by simp
  from 1 2 3 show ?thesis
    unfolding rv res by auto
qed

theorem revert_deletes_exactly_later_versions_witness:
  "distinct (map pk (versions world_versions))
   \<and> versions_after version_ex world_versions = [version_two, version_three]
   \<and> page_delete_error env_ex = (\<lambda>p. None)
   \<and> fst (revert env_ex None version_ex world_versions) = Inr ()
   \<and> versions (snd (revert env_ex None version_ex world_versions)) = [version_ex, version_other]
   \<and> version_ex \<in> set (versions world_versions)"
proof -
  have vs: "versions world_versions = [version_ex, version_two, version_three, version_other]"
    by (simp add: world_versions_def)
  have d: "distinct (map pk (versions world_versions))"
    by (simp add: vs version_ex_def version_two_def version_three_def version_other_def)
  have va: "versions_after version_ex world_versions = [version_two, version_three]"
    by (simp add: versions_after_def vs version_ex_def version_two_def version_three_def
        version_other_def doc_ex_def)
  have e: "page_delete_error env_ex = (\<lambda>p. None)" "model_delete_error env_ex = (\<lambda>p. None)"
    "storage_delete_error env_ex = (\<lambda>p. None)"
    by (simp_all add: env_ex_def)
  have k: "pk version_two \<noteq> None" "pk version_three \<noteq> None"
    by (simp_all add: version_two_def version_three_def)
  note t = revert_deletes_exactly_later_versions [OF d, of env_ex None version_ex]
  from t have ok: "fst (revert env_ex None version_ex world_versions) = Inr ()"
    by (simp add: va e version_two_def version_three_def)
  then have "revert env_ex None version_ex world_versions
      = (Inr (), snd (revert env_ex None version_ex world_versions))"
    by (metis prod.collapse)
  with t have "versions (snd (revert env_ex None version_ex world_versions))
      = filter (\<lambda>w. \<not> (doc_pk (document w) = doc_pk (document version_ex) \<and> timestamp version_ex < timestamp w))
          (versions world_versions)"
    by blast
  then have r: "versions (snd (revert env_ex None version_ex world_versions)) = [version_ex, version_other]"
    by (simp add: vs version_ex_def version_two_def version_three_def version_other_def doc_ex_def)
  from d va e(1) ok r show ?thesis
    by (simp add: vs)
qed

subsection \<open>\<^verbatim>\<open>update_page_count\<close> with a page count\<close>

lemma upto_shift: "map (\<lambda>i. i + 1) [a..b] = [a + 1..b + 1]"
proof (induction a b rule: upto.induct)
  case (1 i j)
  show ?case
  proof (cases "i \<le> j")
    case True
    with 1 show ?thesis
      by (simp add: upto.simps [of i j] upto.simps [of "i + 1" "j + 1"])
  next
    case False
    then show ?thesis by simp
  qed
qed

lemma remember_ge: "seq \<le> remember ks seq"
  unfolding remember_def
proof (induction ks arbitrary: seq)
  case Nil
  then show ?case by simp
next
  case (Cons k ks)
  have "seq \<le> max k seq" by simp
  also have "\<dots> \<le> fold max ks (max k seq)" by (rule Cons)
  finally show ?case by simp
qed

lemma remember_key: "k \<in> set ks \<Longrightarrow> k \<le> remember ks seq"
proof (induction ks arbitrary: seq)
  case Nil
  then show ?case by simp
next
  case (Cons x ks)
  show ?case
  proof (cases "k = x")
    case True
    have "x \<le> max x seq" by simp
    also have "\<dots> \<le> remember ks (max x seq)" by (rule remember_ge)
    finally show ?thesis using True by (simp add: remember_def)
  next
    case False
    with Cons.prems have "k \<in> set ks" by simp
    from Cons.IH [OF this, of "max x seq"] show ?thesis by (simp add: remember_def)
  qed
qed

lemma pages_create_row:
  assumes "pk v = Some k" "pages_create env v n s = (Inr u, s1)"
  shows "\<exists>q. pages s1 = pages s @ [q] \<and> document_version q = k \<and> page_number q = n
           \<and> page_pk_seq s < page_pk q \<and> page_pk q \<notin> page_pk ` set (pages s)
           \<and> page_pk_seq s1 = page_pk q"
proof -
  let ?key = "fresh_pk (map page_pk (pages s)) (page_pk_seq s)"
  let ?q = "\<lparr>page_pk = ?key, document_version = k, page_number = n\<rparr>"
  from assms have e: "page_create_error env v n = None"
    by (auto simp: pages_create_def split: option.splits)
  with assms have s1: "s1 = s\<lparr>pages := pages s @ [?q], page_pk_seq := ?key\<rparr>"
    by (simp add: pages_create_def Let_def)
  have a: "page_pk_seq s < ?key"
    using remember_ge [of "page_pk_seq s" "map page_pk (pages s)"] by (simp add: fresh_pk_def)
  have b: "?key \<notin> page_pk ` set (pages s)"
  proof
    assume "?key \<in> page_pk ` set (pages s)"
    then have "?key \<in> set (map page_pk (pages s))" by simp
    from remember_key [OF this, of "page_pk_seq s"] show False by (simp add: fresh_pk_def)
  qed
  from s1 a b show ?thesis by (intro exI [of _ ?q]) simp
qed

lemma create_pages_new:
  assumes "pk v = Some k" "create_pages env v ns s = (Inr u, s')"
  shows "\<exists>new. pages s' = pages s @ new \<and> map page_number new = map (\<lambda>i. i + 1) ns
           \<and> (\<forall>p\<in>set new. document_version p = k \<and> page_pk_seq s < page_pk p
                  \<and> page_pk p \<notin> page_pk ` set (pages s))"
  using assms(2)
proof (induction ns arbitrary: s)
  case Nil
  then show ?case by simp
next
  case (Cons n ns)
  obtain r s1 where c: "pages_create env v (n + 1) s = (r, s1)"
    by (cases "pages_create env v (n + 1) s")
  with Cons.prems obtain u1 where r: "r = Inr u1"
    by (cases r) auto
  with c Cons.prems have rest: "create_pages env v ns s1 = (Inr u, s')" by simp
  from c r have c': "pages_create env v (n + 1) s = (Inr u1, s1)" by simp
  from pages_create_row [OF assms(1) c'] obtain q where
    q: "pages s1 = pages s @ [q]" "document_version q = k" "page_number q = n + 1"
      "page_pk_seq s < page_pk q" "page_pk q \<notin> page_pk ` set (pages s)" "page_pk_seq s1 = page_pk q"
    by blast
  from Cons.IH [OF rest] obtain new where new: "pages s' = pages s1 @ new"
    "map page_number new = map (\<lambda>i. i + 1) ns"
    "\<forall>p\<in>set new. document_version p = k \<and> page_pk_seq s1 < page_pk p
                  \<and> page_pk p \<notin> page_pk ` set (pages s1)" by blast
  have "\<forall>p\<in>set (q # new). document_version p = k \<and> page_pk_seq s < page_pk p
                  \<and> page_pk p \<notin> page_pk ` set (pages s)"
  proof
    fix p assume "p \<in> set (q # new)"
    then consider "p = q" | "p \<in> set new" by auto
    then show "document_version p = k \<and> page_pk_seq s < page_pk p
                  \<and> page_pk p \<notin> page_pk ` set (pages s)"
    proof cases
      case 1
      with q show ?thesis by simp
    next
      case 2
      with new(3) have p: "document_version p = k" "page_pk_seq s1 < page_pk p"
        "page_pk p \<notin> page_pk ` set (pages s1)" by auto
      from p(2) q(4,6) have "page_pk_seq s < page_pk p" by simp
      moreover from p(3) q(1) have "page_pk p \<notin> page_pk ` set (pages s)" by auto
      ultimately show ?thesis using p(1) by simp
    qed
  qed
  with q(1,3) new(1,2) show ?case by (intro exI [of _ "q # new"]) simp
qed

lemma create_pages_ok:
  assumes "pk v = Some k" "\<forall>i. page_create_error env v i = None"
  shows "fst (create_pages env v ns s) = Inr ()"
  using assms by (induction ns arbitrary: s) (simp_all add: pages_create_def Let_def)

lemma super_save_pages:
  "pages (snd (super_save env v s)) = pages s"
proof (cases "file_pre_save env v s")
  case (Pair r t1)
  have t1: "pages t1 = pages s"
    using Pair by (auto simp: file_pre_save_def Let_def split: option.splits)
  show ?thesis
  proof (cases r)
    case (Inl e)
    with Pair t1 show ?thesis by (simp add: super_save_def)
  next
    case (Inr w1)
    with Pair t1 show ?thesis
      by (simp add: super_save_def Let_def split: option.splits)
  qed
qed

lemma post_save_loop_pages:
  assumes "\<forall>(key, hook)\<in>set (post_save_hooks env). \<forall>w t. pages (snd (hook w t)) = pages t"
  shows "pages (snd (post_save_loop env keys v s)) = pages s"
proof (induction keys arbitrary: s)
  case Nil
  then show ?case by simp
next
  case (Cons key keys)
  show ?case
  proof (cases "map_of (post_save_hooks env) key")
    case None
    then show ?thesis by simp
  next
    case (Some hook)
    then have "(key, hook) \<in> set (post_save_hooks env)" by (rule map_of_SomeD)
    with assms have h: "pages (snd (hook v s)) = pages s" by auto
    obtain r s1 where hs: "hook v s = (r, s1)" by (cases "hook v s")
    with h Cons [of s1] Some show ?thesis by (cases r) simp_all
  qed
qed

lemma save_saved_pages:
  assumes "pk v = Some k"
    and "\<forall>(key, hook)\<in>set (post_save_hooks env). \<forall>w t. pages (snd (hook w t)) = pages t"
  shows "pages (snd (save env user v s)) = pages s"
proof -
  let ?keys = "sort (map fst (post_save_hooks env))"
  show ?thesis
  proof (cases "super_save env v s")
    case (Pair r s1)
    have p1: "pages s1 = pages s"
      using Pair super_save_pages [of env v s] by simp
    show ?thesis
    proof (cases r)
      case (Inl e)
      with Pair show ?thesis
        by (simp add: save_def save_with_saved [OF assms(1)] atomic_def and_then_def rollback_def logger_def)
    next
      case (Inr v1)
      obtain r2 s2 where l: "post_save_loop env ?keys v1 s1 = (r2, s2)"
        by (cases "post_save_loop env ?keys v1 s1")
      with post_save_loop_pages [OF assms(2), of ?keys v1 s1] p1 have "pages s2 = pages s" by simp
      with Pair Inr l show ?thesis
        by (cases r2)
          (simp_all add: save_def save_with_saved [OF assms(1)] atomic_def and_then_def rollback_def
            logger_def return_def)
    qed
  qed
qed

lemma update_page_count_nosave:
  assumes "open_version env False v s = Inr file_object"
    and "get_page_count env file_object (mimetype v) = Inr n"
    and "pk v = Some k"
  shows "(\<exists>e s'. update_page_count_with f env False v s = (Inl e, s') \<and> pages s' = pages s)
       \<or> (\<exists>s'. update_page_count_with f env False v s = (Inr (Some n, v), s')
              \<and> map page_number (pages_all v s') = [1..n]
              \<and> page_pk ` set (pages_all v s') \<inter> page_pk ` set (pages s) = {}
              \<and> filter (\<lambda>p. document_version p \<noteq> k) (pages s') = filter (\<lambda>p. document_version p \<noteq> k) (pages s))"
proof -
  let ?s0 = "pages_all_delete v s"
  let ?old = "filter (\<lambda>p. document_version p = k) (pages s)"
  have p0: "pages ?s0 = filter (\<lambda>p. document_version p \<noteq> k) (pages s)"
    and q0: "page_pk_seq ?s0 = remember (map page_pk ?old) (page_pk_seq s)"
    using assms(3) by (simp_all add: pages_all_delete_def)
  obtain r s1 where c: "create_pages env v [0..n - 1] ?s0 = (r, s1)"
    by (cases "create_pages env v [0..n - 1] ?s0")
  show ?thesis
  proof (cases r)
    case (Inl e)
    with c assms(1,2) have "update_page_count_with f env False v s = (Inl e, rollback s s1)"
      by (simp add: update_page_count_with_def atomic_def)
    moreover have "pages (rollback s s1) = pages s"
      by (simp add: rollback_def)
    ultimately show ?thesis by blast
  next
    case (Inr u)
    from c Inr have c': "create_pages env v [0..n - 1] ?s0 = (Inr u, s1)" by simp
    from create_pages_new [OF assms(3) c']
    obtain new where new: "pages s1 = pages ?s0 @ new" "map page_number new = map (\<lambda>i. i + 1) [0..n - 1]"
      "\<forall>p\<in>set new. document_version p = k \<and> page_pk_seq ?s0 < page_pk p
                  \<and> page_pk p \<notin> page_pk ` set (pages ?s0)" by auto
    have nums: "map page_number new = [1..n]"
      using new(2) upto_shift [of 0 "n - 1"] by simp
    have fk: "filter (\<lambda>p. document_version p = k) (pages s1) = new"
      using new(1,3) by (simp add: p0 filter_id_conv)
    have "sort_key page_number new = new"
      by (rule sort_key_id_if_sorted) (simp add: nums)
    then have pa: "pages_all v s1 = new"
      using assms(3) fk by (simp add: pages_all_def)
    have ot: "filter (\<lambda>p. document_version p \<noteq> k) (pages s1) = filter (\<lambda>p. document_version p \<noteq> k) (pages s)"
      using new(1,3) by (simp add: p0 filter_empty_conv)
    have fresh: "page_pk p \<notin> page_pk ` set (pages s)" if "p \<in> set new" for p
    proof
      assume "page_pk p \<in> page_pk ` set (pages s)"
      then obtain o' where o': "o' \<in> set (pages s)" "page_pk o' = page_pk p" by auto
      from that new(3) have p: "page_pk_seq ?s0 < page_pk p" "page_pk p \<notin> page_pk ` set (pages ?s0)"
        by auto
      show False
      proof (cases "document_version o' = k")
        case True
        with o'(1) have "page_pk o' \<in> set (map page_pk ?old)" by simp
        from remember_key [OF this, of "page_pk_seq s"] p(1) o'(2) show False
          by (simp add: q0)
      next
        case False
        with o'(1) have "o' \<in> set (pages ?s0)" by (simp add: p0)
        then have "page_pk o' \<in> page_pk ` set (pages ?s0)" by (rule imageI)
        with p(2) o'(2) show False by simp
      qed
    qed
    then have dj: "page_pk ` set (pages_all v s1) \<inter> page_pk ` set (pages s) = {}"
      unfolding pa by auto
    from c' assms(1,2) have "update_page_count_with f env False v s = (Inr (Some n, v), s1)"
      by (simp add: update_page_count_with_def atomic_def)
    with pa nums dj ot show ?thesis by simp
  qed
qed

lemma update_page_count_then_save:
  assumes "open_version env False v s = Inr file_object"
    and "get_page_count env file_object (mimetype v) = Inr n"
  shows "update_page_count_with f env True v s =
    (case update_page_count_with f env False v s of
       (Inl e, s') \<Rightarrow> (Inl e, s')
     | (Inr (count, w), s') \<Rightarrow>
         (case f v s' of
            (Inl e, s'') \<Rightarrow> (Inl e, s'')
          | (Inr v', s'') \<Rightarrow> (Inr (count, v'), s'')))"
  using assms
  by (simp add: update_page_count_with_def split: prod.splits sum.splits)

lemma pages_all_pages:
  "pages s' = pages s \<Longrightarrow> pages_all v s' = pages_all v s"
  by (simp add: pages_all_def split: option.splits)

text \<open>
  C7. The version is saved, \<^verbatim>\<open>self.open()\<close> succeeds and the converter reports the
  count \<open>n\<close>; the post-save hooks, which run when \<^verbatim>\<open>save=True\<close>, do not write the
  page table themselves. Then, for either value of \<^verbatim>\<open>save\<close>: when
  \<^verbatim>\<open>update_page_count\<close> returns normally it returns \<open>n\<close>, the pages of the version, in
  page order, are numbered exactly \<open>1..n\<close>, without a stale or a repeated number, and
  every one of them is a new row: its key is the key of no row that was in the table
  before the call, so every page the version had is deleted. When it raises, the page
  table is either exactly as before the call (the transaction of the replacement rolled
  back) or holds the complete new set \<open>1..n\<close> of new rows (the later \<^verbatim>\<open>self.save()\<close>
  raised), never a part of it. The pages of other versions are the same in every outcome.
  With \<^verbatim>\<open>save=False\<close> and no failing insert the call does return normally.
\<close>

theorem update_page_count_replaces_page_set:
  assumes "open_version env False v s = Inr file_object"
    and "get_page_count env file_object (mimetype v) = Inr n"
    and "pk v = Some k"
    and "\<forall>(key, hook)\<in>set (post_save_hooks env). \<forall>w t. pages (snd (hook w t)) = pages t"
  shows "(case update_page_count env save_flag v s of
            (Inr (count, v'), s') \<Rightarrow>
              count = Some n \<and> map page_number (pages_all v s') = [1..n]
              \<and> distinct (map page_number (pages_all v s'))
              \<and> page_pk ` set (pages_all v s') \<inter> page_pk ` set (pages s) = {}
          | (Inl e, s') \<Rightarrow>
              pages s' = pages s
              \<or> (map page_number (pages_all v s') = [1..n]
                  \<and> page_pk ` set (pages_all v s') \<inter> page_pk ` set (pages s) = {}))
       \<and> filter (\<lambda>p. document_version p \<noteq> k) (pages (snd (update_page_count env save_flag v s)))
           = filter (\<lambda>p. document_version p \<noteq> k) (pages s)
       \<and> ((\<forall>i. page_create_error env v i = None) \<and> \<not> save_flag
            \<longrightarrow> (\<exists>s'. update_page_count env save_flag v s = (Inr (Some n, v), s')))"
proof -
  let ?f = "save env None"
  let ?others = "\<lambda>t. filter (\<lambda>p. document_version p \<noteq> k) (pages t)"
  let ?new = "\<lambda>t. map page_number (pages_all v t) = [1..n]
                \<and> page_pk ` set (pages_all v t) \<inter> page_pk ` set (pages s) = {}"
  note ns = update_page_count_nosave [OF assms(1-3), of ?f]
  have total: "\<exists>s'. update_page_count_with ?f env False v s = (Inr (Some n, v), s')"
    if "\<forall>i. page_create_error env v i = None"
  proof -
    from create_pages_ok [OF assms(3) that, of "[0..n - 1]" "pages_all_delete v s"]
    obtain s1 where "create_pages env v [0..n - 1] (pages_all_delete v s) = (Inr (), s1)"
      by (cases "create_pages env v [0..n - 1] (pages_all_delete v s)") auto
    with assms(1,2) show ?thesis
      by (simp add: update_page_count_with_def atomic_def)
  qed
  show ?thesis
  proof (cases save_flag)
    case False
    from ns show ?thesis
    proof
      assume "\<exists>e s'. update_page_count_with ?f env False v s = (Inl e, s') \<and> pages s' = pages s"
      then obtain e s' where e: "update_page_count_with ?f env False v s = (Inl e, s')"
        "pages s' = pages s" by blast
      have "\<not> (\<forall>i. page_create_error env v i = None)"
      proof
        assume "\<forall>i. page_create_error env v i = None"
        from total [OF this] e show False by simp
      qed
      with e False show ?thesis by (simp add: update_page_count_def)
    next
      assume "\<exists>s'. update_page_count_with ?f env False v s = (Inr (Some n, v), s')
              \<and> map page_number (pages_all v s') = [1..n]
              \<and> page_pk ` set (pages_all v s') \<inter> page_pk ` set (pages s) = {}
              \<and> ?others s' = ?others s"
      then obtain s' where "update_page_count_with ?f env False v s = (Inr (Some n, v), s')"
        "map page_number (pages_all v s') = [1..n]"
        "page_pk ` set (pages_all v s') \<inter> page_pk ` set (pages s) = {}"
        "?others s' = ?others s" by blast
      with False show ?thesis by (simp add: update_page_count_def)
    qed
  next
    case True
    note ts = update_page_count_then_save [OF assms(1,2), of ?f]
    from ns show ?thesis
    proof
      assume "\<exists>e s'. update_page_count_with ?f env False v s = (Inl e, s') \<and> pages s' = pages s"
      then obtain e s' where e: "update_page_count_with ?f env False v s = (Inl e, s')"
        "pages s' = pages s" by blast
      with True ts show ?thesis by (simp add: update_page_count_def)
    next
      assume "\<exists>s'. update_page_count_with ?f env False v s = (Inr (Some n, v), s')
              \<and> map page_number (pages_all v s') = [1..n]
              \<and> page_pk ` set (pages_all v s') \<inter> page_pk ` set (pages s) = {}
              \<and> ?others s' = ?others s"
      then obtain s1 where s1: "update_page_count_with ?f env False v s = (Inr (Some n, v), s1)"
        "map page_number (pages_all v s1) = [1..n]"
        "page_pk ` set (pages_all v s1) \<inter> page_pk ` set (pages s) = {}"
        "?others s1 = ?others s" by blast
      obtain r s2 where sv: "?f v s1 = (r, s2)" by (cases "?f v s1")
      from save_saved_pages [OF assms(3,4), of None s1] sv have p2: "pages s2 = pages s1" by simp
      from pages_all_pages [OF p2] s1(2,3) have pa: "map page_number (pages_all v s2) = [1..n]"
        "page_pk ` set (pages_all v s2) \<inter> page_pk ` set (pages s) = {}" by simp_all
      from p2 s1(4) have ot: "?others s2 = ?others s" by simp
      from True ts s1(1) sv pa ot show ?thesis
        by (cases r) (simp_all add: update_page_count_def)
    qed
  qed
qed

theorem update_page_count_replaces_page_set_witness:
  "open_version env_ex False version_ex world_pages = Inr ''abc''
   \<and> get_page_count env_ex ''abc'' (mimetype version_ex) = Inr 3
   \<and> pk version_ex = Some 1
   \<and> post_save_hooks env_ex = []
   \<and> map page_number (pages world_pages) = [1, 2]
   \<and> map page_pk (pages world_pages) = [1, 2]
   \<and> fst (update_page_count env_ex True version_ex world_pages) = Inr (Some 3, version_ex)
   \<and> map page_number (pages_all version_ex (snd (update_page_count env_ex True version_ex world_pages))) = [1, 2, 3]
   \<and> map page_pk (pages (snd (update_page_count env_ex True version_ex world_pages))) = [3, 4, 5]
   \<and> page_create_error env_ex version_ex = (\<lambda>i. None)
   \<and> fst (update_page_count env_ex False version_ex world_pages) = Inr (Some 3, version_ex)"
proof -
  have h1: "open_version env_ex False version_ex world_pages = Inr ''abc''"
    by (simp add: open_version_def storage_open_def env_ex_def version_ex_def world_pages_def world_ex_def)
  have h2: "get_page_count env_ex ''abc'' (mimetype version_ex) = Inr 3"
    by (simp add: env_ex_def)
  have h3: "pk version_ex = Some 1"
    by (simp add: version_ex_def)
  have h0: "post_save_hooks env_ex = []" "page_create_error env_ex version_ex = (\<lambda>i. None)"
    by (simp_all add: env_ex_def)
  then have h4: "\<forall>(key, hook)\<in>set (post_save_hooks env_ex). \<forall>w t. pages (snd (hook w t)) = pages t"
    by simp
  have u: "[1..3] = [1, 2, 3::int]"
    by (simp add: upto.simps)
  have t: "fst (update_page_count env_ex True version_ex world_pages) = Inr (Some 3, version_ex)"
    and ks: "map page_pk (pages (snd (update_page_count env_ex True version_ex world_pages))) = [3, 4, 5]"
    by (simp_all add: update_page_count_def env_ex_def version_ex_def world_pages_def world_ex_def
        page_one_def page_two_def doc_ex_def pipeline_defs save_with_saved [of _ 1] upto.simps)
  from update_page_count_replaces_page_set [OF h1 h2 h3 h4, of True] t
  have 1: "map page_number (pages_all version_ex (snd (update_page_count env_ex True version_ex world_pages))) = [1, 2, 3]"
    by (cases "update_page_count env_ex True version_ex world_pages") (simp add: u)
  from update_page_count_replaces_page_set [OF h1 h2 h3 h4, of False] h0
  have 2: "fst (update_page_count env_ex False version_ex world_pages) = Inr (Some 3, version_ex)"
    by auto
  have 3: "map page_number (pages world_pages) = [1, 2]" "map page_pk (pages world_pages) = [1, 2]"
    by (simp_all add: world_pages_def page_one_def page_two_def)
  from h1 h2 h3 h0 t ks 1 2 3 show ?thesis by (intro conjI)
qed

subsection \<open>\<^verbatim>\<open>save\<close> is the method that calls itself\<close>

lemma super_save_pk:
  assumes "super_save env v s = (Inr v1, s1)"
  shows "pk v1 \<noteq> None"
proof -
  from super_save_pre [OF assms] obtain w1 t1 where
    f: "file_pre_save env v s = (Inr w1, t1)" and m: "model_save_error env w1 = None" by blast
  show ?thesis
  proof (cases "pk w1")
    case None
    with assms f m show ?thesis
      by (auto simp: super_save_def Let_def)
  next
    case (Some k)
    with file_pre_save_fields [OF f] have "pk v = Some k" by simp
    from super_save_row [OF assms this] show ?thesis by simp
  qed
qed

lemma update_checksum_with_nosave:
  "update_checksum_with f env False v s = update_checksum_with g env False v s"
  by (simp add: update_checksum_with_def Let_def cong: sum.case_cong prod.case_cong)

lemma update_mimetype_with_nosave:
  "update_mimetype_with f env False v s = update_mimetype_with g env False v s"
  by (simp add: update_mimetype_with_def Let_def cong: sum.case_cong prod.case_cong)

lemma update_page_count_with_nosave:
  "update_page_count_with f env False v s = update_page_count_with g env False v s"
  by (simp add: update_page_count_with_def Let_def cong: sum.case_cong prod.case_cong)

lemma update_checksum_with_pk:
  "update_checksum_with f env False v s = (Inr v', s') \<Longrightarrow> pk v' = pk v"
  by (auto simp: update_checksum_with_def Let_def split: if_splits sum.splits)

lemma update_mimetype_with_pk:
  "update_mimetype_with f env False v s = (Inr v', s') \<Longrightarrow> pk v' = pk v"
  by (auto simp: update_mimetype_with_def Let_def split: if_splits sum.splits prod.splits)

lemma and_then_cong_result:
  assumes "\<And>x s'. m s = (Inr x, s') \<Longrightarrow> f x s' = g x s'"
  shows "and_then m f s = and_then m g s"
  using assms by (auto simp: and_then_def split: prod.splits sum.splits)

lemma save_block_cong:
  assumes "\<And>w t. pk w \<noteq> None \<Longrightarrow> f w t = g w t"
  shows "save_block f env new v s = save_block g env new v s"
  unfolding save_block_def
proof (rule and_then_cong_result)
  fix v1 s1 assume a1: "super_save env v s = (Inr v1, s1)"
  then have k1: "pk v1 \<noteq> None" by (rule super_save_pk)
  let ?tail = "\<lambda>h (v3::version). and_then (h v3) (\<lambda>v4.
       and_then (update_page_count_with h env False v4) (\<lambda>(_, v5).
       and_then (if setting_fix_orientation env then fix_orientation env v5 else return ()) (\<lambda>_.
       and_then (\<lambda>s. return ()
           (logger INFO ''New document version \"%s\" created for document: %s''
              [ArgVersion (pk v5), ArgDocument (doc_pk (document v5))] s)) (\<lambda>_.
       (let d = (document v5)\<lparr>is_stub := False\<rparr>;
            d' = (if label d = [] then d\<lparr>label := file_name v5\<rparr> else d)
        in and_then (document_save env d') (\<lambda>_. return (v5\<lparr>document := d'\<rparr>)))))))"
  have tail: "?tail f v3 t = ?tail g v3 t" if "pk v3 \<noteq> None" for v3 t
  proof -
    have "update_page_count_with f env False = update_page_count_with g env False"
      by (intro ext) (rule update_page_count_with_nosave)
    then show ?thesis
      using assms [OF that] by (simp add: and_then_def)
  qed
  show "and_then (post_save_loop env (sort (map fst (post_save_hooks env))) v1)
          (\<lambda>_. if new then and_then (update_checksum_with f env False v1) (\<lambda>v2.
                   and_then (update_mimetype_with f env False v2) (?tail f))
                else return v1) s1
      = and_then (post_save_loop env (sort (map fst (post_save_hooks env))) v1)
          (\<lambda>_. if new then and_then (update_checksum_with g env False v1) (\<lambda>v2.
                   and_then (update_mimetype_with g env False v2) (?tail g))
                else return v1) s1"
  proof (rule and_then_cong_result)
    fix u s2
    show "(if new then and_then (update_checksum_with f env False v1) (\<lambda>v2.
                   and_then (update_mimetype_with f env False v2) (?tail f))
                else return v1) s2
        = (if new then and_then (update_checksum_with g env False v1) (\<lambda>v2.
                   and_then (update_mimetype_with g env False v2) (?tail g))
                else return v1) s2"
    proof (cases new)
      case False
      then show ?thesis by simp
    next
      case True
      have "and_then (update_checksum_with f env False v1) (\<lambda>v2.
                   and_then (update_mimetype_with f env False v2) (?tail f)) s2
          = and_then (update_checksum_with g env False v1) (\<lambda>v2.
                   and_then (update_mimetype_with f env False v2) (?tail f)) s2"
        by (simp add: and_then_def update_checksum_with_nosave [of f env v1 s2 g])
      also have "\<dots> = and_then (update_checksum_with g env False v1) (\<lambda>v2.
                   and_then (update_mimetype_with g env False v2) (?tail g)) s2"
      proof (rule and_then_cong_result)
        fix v2 s3 assume a3: "update_checksum_with g env False v1 s2 = (Inr v2, s3)"
        then have k2: "pk v2 \<noteq> None" using update_checksum_with_pk [OF a3] k1 by simp
        have "and_then (update_mimetype_with f env False v2) (?tail f) s3
            = and_then (update_mimetype_with g env False v2) (?tail f) s3"
          by (simp add: and_then_def update_mimetype_with_nosave [of f env v2 s3 g])
        also have "\<dots> = and_then (update_mimetype_with g env False v2) (?tail g) s3"
        proof (rule and_then_cong_result)
          fix v3 s4 assume a4: "update_mimetype_with g env False v2 s3 = (Inr v3, s4)"
          then have "pk v3 \<noteq> None" using update_mimetype_with_pk [OF a4] k2 by simp
          then show "?tail f v3 s4 = ?tail g v3 s4" by (rule tail)
        qed
        finally show "and_then (update_mimetype_with f env False v2) (?tail f) s3
            = and_then (update_mimetype_with g env False v2) (?tail g) s3" .
      qed
      finally show ?thesis using True by simp
    qed
  qed
qed

lemma save_unfold:
  "save env user v s = save_with (save env None) env user v s"
proof -
  have "save_block (save_saved env) env new v t = save_block (save env None) env new v t" for new t
    by (rule save_block_cong) (simp add: save_saved_pk)
  then have "save_block (save_saved env) env new v = save_block (save env None) env new v" for new
    by (intro ext)
  then show ?thesis
    by (simp add: save_def save_with_def)
qed

subsection \<open>\<^verbatim>\<open>save\<close> of a new version when a statement raises\<close>

lemma run_steps_and_then:
  "run_steps (step # steps) = (\<lambda>v. and_then (step v) (run_steps steps))"
  by (intro ext) (simp add: and_then_def)

lemma run_steps_Nil: "run_steps [] = return"
  by (intro ext) (simp add: return_def)

lemma and_then_assoc:
  "and_then (and_then m f) g = and_then m (\<lambda>x. and_then (f x) g)"
  by (intro ext) (simp add: and_then_def split: prod.splits sum.splits)

lemma return_and_then: "and_then (return x) f = f x"
  by (intro ext) (simp add: and_then_def return_def)

lemma and_then_return: "and_then m return = m"
  by (intro ext) (simp add: and_then_def return_def split: prod.splits sum.splits)

lemma save_block_steps:
  "save_block (save env None) env True v = run_steps (save_steps env) v"
  by (simp add: save_block_def save_steps_def run_steps_and_then run_steps_Nil and_then_assoc
      return_and_then and_then_return update_checksum_def update_mimetype_def
      update_page_count_def split_def Let_def)

lemma run_steps_fail:
  assumes "run_steps before v s = (Inr w, t)" "step w t = (Inl e, t')"
  shows "run_steps (before @ step # after) v s = (Inl e, t')"
  using assms
proof (induction before arbitrary: v s)
  case Nil
  then show ?case by simp
next
  case (Cons b before)
  obtain r s1 where b: "b v s = (r, s1)" by (cases "b v s")
  with Cons.prems(1) obtain v1 where r: "r = Inr v1" by (cases r) auto
  with b Cons.prems(1) have "run_steps before v1 s1 = (Inr w, t)" by simp
  from Cons.IH [OF this Cons.prems(2)] b r show ?case by simp
qed

text \<open>
  C5. A new version is saved and one of the statements inside the transaction raises:
  the statements before it (any number of them, from none to all but one) returned
  normally and the next one raises \<open>e\<close>, leaving the world \<open>t'\<close>. This covers
  \<^verbatim>\<open>super().save()\<close>, a post-save hook, \<^verbatim>\<open>update_checksum\<close>, the second save and
  \<^verbatim>\<open>update_page_count\<close>, each with the exceptions it does not handle itself. Then
  \<^verbatim>\<open>save\<close> raises that same \<open>e\<close> to its caller. The four tables are exactly as before the
  call, so no row of the version, of its pages or of the document stays; the last log record
  is the error record with the document and \<open>e\<close>; no event or signal is sent; and the
  world is the one the failing statement left, rolled back and with that one record added:
  the statement ran once and nothing ran after it.
\<close>

theorem save_error_rolls_back_and_reraises:
  assumes "pk v = None"
    and "i < length (save_steps env)"
    and "run_steps (take i (save_steps env)) v
           (logger INFO ''Creating new version for document: %s'' [ArgDocument (doc_pk (document v))] s)
         = (Inr w, t)"
    and "(save_steps env ! i) w t = (Inl e, t')"
  shows "save env user v s =
           (Inl e, logger ERROR ''Error creating new document version for document \"%s\"; %s''
                     [ArgDocument (doc_pk (document v)), ArgError e] (rollback s t'))
       \<and> versions (snd (save env user v s)) = versions s
       \<and> pages (snd (save env user v s)) = pages s
       \<and> documents (snd (save env user v s)) = documents s
       \<and> transformations (snd (save env user v s)) = transformations s
       \<and> events (snd (save env user v s)) = events t'
       \<and> last (logs (snd (save env user v s))) =
           (ERROR, ''Error creating new document version for document \"%s\"; %s'',
            [ArgDocument (doc_pk (document v)), ArgError e])"
proof -
  let ?s0 = "logger INFO ''Creating new version for document: %s'' [ArgDocument (doc_pk (document v))] s"
  have split: "save_steps env = take i (save_steps env) @ (save_steps env ! i) # drop (Suc i) (save_steps env)"
    using assms(2) by (rule id_take_nth_drop)
  have "run_steps (save_steps env) v ?s0 = (Inl e, t')"
    using run_steps_fail [where before = "take i (save_steps env)" and step = "save_steps env ! i"
        and after = "drop (Suc i) (save_steps env)" and v = v and s = ?s0 and w = w and t = t
        and e = e and t' = t'] assms(3,4) split
    by simp
  then have b: "save_block (save env None) env True v ?s0 = (Inl e, t')"
    by (simp add: save_block_steps)
  have r: "rollback ?s0 t' = rollback s t'"
    by (simp add: rollback_def logger_def)
  have "save env user v s =
           (Inl e, logger ERROR ''Error creating new document version for document \"%s\"; %s''
                     [ArgDocument (doc_pk (document v)), ArgError e] (rollback s t'))"
    using assms(1) b r by (simp add: save_unfold [of env user v s] save_with_def atomic_def)
  then show ?thesis
    by (simp add: logger_def rollback_def)
qed

theorem save_error_rolls_back_and_reraises_witness:
  "pk version_new = None
   \<and> (5::nat) < length (save_steps (env_ex\<lparr>get_page_count := \<lambda>b m. Inl (Failure ''converter'')\<rparr>))
   \<and> fst (run_steps (take 5 (save_steps (env_ex\<lparr>get_page_count := \<lambda>b m. Inl (Failure ''converter'')\<rparr>))) version_new
        (logger INFO ''Creating new version for document: %s'' [ArgDocument (doc_pk (document version_new))] world_new))
       = Inr (version_new\<lparr>pk := Some 1, timestamp := 50, checksum := Some ''sha:abc'',
               mimetype := Some ''text/plain'', encoding := Some ''utf-8''\<rparr>)
   \<and> length (versions (snd (run_steps (take 5 (save_steps (env_ex\<lparr>get_page_count := \<lambda>b m. Inl (Failure ''converter'')\<rparr>))) version_new
        (logger INFO ''Creating new version for document: %s'' [ArgDocument (doc_pk (document version_new))] world_new)))) = 1
   \<and> fst (save (env_ex\<lparr>get_page_count := \<lambda>b m. Inl (Failure ''converter'')\<rparr>) None version_new world_new)
       = Inl (Failure ''converter'')
   \<and> versions (snd (save (env_ex\<lparr>get_page_count := \<lambda>b m. Inl (Failure ''converter'')\<rparr>) None version_new world_new)) = []
   \<and> versions world_new = []
   \<and> last (logs (snd (save (env_ex\<lparr>get_page_count := \<lambda>b m. Inl (Failure ''converter'')\<rparr>) None version_new world_new)))
       = (ERROR, ''Error creating new document version for document \"%s\"; %s'',
          [ArgDocument 1, ArgError (Failure ''converter'')])"
proof -
  let ?env = "env_ex\<lparr>get_page_count := \<lambda>b m. Inl (Failure ''converter'')\<rparr>"
  let ?s0 = "logger INFO ''Creating new version for document: %s'' [ArgDocument (doc_pk (document version_new))] world_new"
  let ?w = "version_new\<lparr>pk := Some 1, timestamp := 50, checksum := Some ''sha:abc'',
               mimetype := Some ''text/plain'', encoding := Some ''utf-8''\<rparr>"
  let ?t = "?s0\<lparr>versions := [?w], version_pk_seq := 1\<rparr>"
  have h1: "pk version_new = None"
    by (simp add: version_new_def)
  have h2: "5 < length (save_steps ?env)"
    by (simp add: save_steps_def)
  have h3: "run_steps (take 5 (save_steps ?env)) version_new ?s0 = (Inr ?w, ?t)"
    by (simp add: save_steps_def update_checksum_def update_mimetype_def save_with_saved [of _ 1]
        env_ex_def version_new_def world_new_def world_ex_def doc_ex_def pipeline_defs)
  have h4: "(save_steps ?env ! 5) ?w ?t = (Inl (Failure ''converter''), ?t)"
    by (simp add: save_steps_def update_page_count_def
        env_ex_def version_new_def world_new_def world_ex_def doc_ex_def pipeline_defs)
  have d: "doc_pk (document version_new) = 1" "versions world_new = []"
    by (simp_all add: version_new_def doc_ex_def world_new_def)
  note t = save_error_rolls_back_and_reraises [OF h1 h2 h3 h4, of None]
  from t [THEN conjunct1] have a: "fst (save ?env None version_new world_new) = Inl (Failure ''converter'')"
    by simp
  from t [THEN conjunct2, THEN conjunct1] d(2)
  have b: "versions (snd (save ?env None version_new world_new)) = []"
    by simp
  from t [THEN conjunct2, THEN conjunct2, THEN conjunct2, THEN conjunct2, THEN conjunct2, THEN conjunct2] d(1)
  have c: "last (logs (snd (save ?env None version_new world_new)))
       = (ERROR, ''Error creating new document version for document \"%s\"; %s'',
          [ArgDocument 1, ArgError (Failure ''converter'')])"
    by simp
  have h3a: "fst (run_steps (take 5 (save_steps ?env)) version_new ?s0) = Inr ?w"
    and h3b: "length (versions (snd (run_steps (take 5 (save_steps ?env)) version_new ?s0))) = 1"
    by (simp_all add: h3)
  from h1 h2 h3a h3b a b d(2) c show ?thesis
    by (intro conjI)
qed

end
